theory Spec2Isabelle
  imports Main "HOL-Library.Word" "HOL-Library.Sublist" "HOL-Library.Multiset"
begin

section \<open>JavaScript strings\<close>

text \<open>
  A JavaScript string is a sequence of UTF-16 code units. None of the regular
  expressions of \<^verbatim>\<open>src/index.ts\<close> carries the \<^verbatim>\<open>u\<close> flag, so they, like
  \<^verbatim>\<open>split\<close>, \<^verbatim>\<open>includes\<close> and \<^verbatim>\<open>trim\<close>, work on code units.
\<close>

type_synonym jschar = "16 word"
type_synonym jsstring = "jschar list"

abbreviation NL :: jschar where "NL \<equiv> 0x0A"
abbreviation LBRACKET :: jschar where "LBRACKET \<equiv> 0x5B"
abbreviation RBRACKET :: jschar where "RBRACKET \<equiv> 0x5D"
abbreviation SLASH :: jschar where "SLASH \<equiv> 0x2F"
abbreviation COLON :: jschar where "COLON \<equiv> 0x3A"
abbreviation FULLWIDTH_COLON :: jschar where "FULLWIDTH_COLON \<equiv> 0xFF1A"
abbreviation LCORNER :: jschar where "LCORNER \<equiv> 0x300E"
abbreviation RCORNER :: jschar where "RCORNER \<equiv> 0x300F"
abbreviation ZHUI :: jschar where "ZHUI \<equiv> 0x7F00"
abbreviation QIAN :: jschar where "QIAN \<equiv> 0x524D"

text \<open>The regex class \<^verbatim>\<open>\d\<close>: the ASCII digits.\<close>

definition isDigit :: "jschar \<Rightarrow> bool" where
  "isDigit c = (0x30 \<le> c \<and> c \<le> 0x39)"

text \<open>The line terminators, which the regex \<^verbatim>\<open>.\<close> does not match.\<close>

definition isLineTerminator :: "jschar \<Rightarrow> bool" where
  "isLineTerminator c = (c = 0x0A \<or> c = 0x0D \<or> c = 0x2028 \<or> c = 0x2029)"

text \<open>
  The regex class \<^verbatim>\<open>\s\<close>, which is also what \<^verbatim>\<open>String.prototype.trim\<close> strips:
  the WhiteSpace and LineTerminator productions of ECMAScript.
\<close>

definition isSpace :: "jschar \<Rightarrow> bool" where
  "isSpace c = (c = 0x09 \<or> c = 0x0A \<or> c = 0x0B \<or> c = 0x0C \<or> c = 0x0D \<or> c = 0x20
     \<or> c = 0xA0 \<or> c = 0x1680 \<or> (0x2000 \<le> c \<and> c \<le> 0x200A) \<or> c = 0x2028
     \<or> c = 0x2029 \<or> c = 0x202F \<or> c = 0x205F \<or> c = 0x3000 \<or> c = 0xFEFF)"

text \<open>A string literal of ASCII characters, as code units.\<close>

definition ascii :: "string \<Rightarrow> jsstring" where
  "ascii s = map (\<lambda>c. of_nat (of_char c)) s"

definition startsWith :: "jsstring \<Rightarrow> jsstring \<Rightarrow> bool" where
  "startsWith s p = (take (length p) s = p)"

text \<open>\<^verbatim>\<open>s.includes(m)\<close>: \<open>m\<close> occurs in \<open>s\<close> at some position.\<close>

fun includes_str :: "jsstring \<Rightarrow> jsstring \<Rightarrow> bool" where
  "includes_str [] m = (m = [])"
| "includes_str (c # cs) m = (startsWith (c # cs) m \<or> includes_str cs m)"

text \<open>\<^verbatim>\<open>s.trim()\<close>.\<close>

definition trim :: "jsstring \<Rightarrow> jsstring" where
  "trim s = rev (dropWhile isSpace (rev (dropWhile isSpace s)))"

text \<open>\<^verbatim>\<open>s.split('\n')\<close>: always at least one piece; the empty string gives one empty piece.\<close>

fun split :: "jsstring \<Rightarrow> jsstring list" where
  "split [] = [[]]"
| "split (c # cs) =
     (if c = NL then [] # split cs
      else (case split cs of [] \<Rightarrow> [[c]] | l # ls \<Rightarrow> (c # l) # ls))"

text \<open>\<^verbatim>\<open>ls.join('\n')\<close>.\<close>

fun join :: "jsstring list \<Rightarrow> jsstring" where
  "join [] = []"
| "join [l] = l"
| "join (l # ls) = l @ NL # join ls"

section \<open>The regular expressions of \<^verbatim>\<open>preprocessOcrText\<close>\<close>

text \<open>
  Each pattern is a matcher on the rest of the string at the current position: it gives the
  length of the match that the backtracking matcher finds there, or \<open>None\<close>. In every
  pattern below a greedy run is followed by a character outside the run's class (or, for
  \<^verbatim>\<open>.*\<close>, by the end of the pattern), so the run is the longest one and giving back
  characters never helps; the one exception is \<^verbatim>\<open>\n\s*\n\<close>, where \<^verbatim>\<open>\s\<close> contains
  the newline and the match ends at the last newline of the white-space run.
\<close>

text \<open>\<^verbatim>\<open>/\[(?!ETH\])[^\]]*\]/\<close>\<close>

definition ETH_CLOSE :: jsstring where
  "ETH_CLOSE = ascii ''ETH]''"

definition re_bracket :: "jsstring \<Rightarrow> nat option" where
  "re_bracket s = (case s of [] \<Rightarrow> None | c # cs \<Rightarrow>
     if c = LBRACKET \<and> \<not> startsWith cs ETH_CLOSE then
       (let body = takeWhile (\<lambda>x. x \<noteq> RBRACKET) cs;
            rest = dropWhile (\<lambda>x. x \<noteq> RBRACKET) cs
        in if rest = [] then None else Some (1 + length body + 1))
     else None)"

text \<open>\<^verbatim>\<open>/\[\d+ED\/[\d\/]+\]/\<close>\<close>

definition ED_SLASH :: jsstring where
  "ED_SLASH = ascii ''ED/''"

definition re_numtag :: "jsstring \<Rightarrow> nat option" where
  "re_numtag s = (case s of [] \<Rightarrow> None | c # cs \<Rightarrow>
     if c = LBRACKET then
       (let ds = takeWhile isDigit cs;
            r1 = dropWhile isDigit cs;
            r2 = drop 3 r1;
            qs = takeWhile (\<lambda>x. isDigit x \<or> x = SLASH) r2;
            r3 = dropWhile (\<lambda>x. isDigit x \<or> x = SLASH) r2
        in if ds \<noteq> [] \<and> startsWith r1 ED_SLASH \<and> qs \<noteq> [] \<and> startsWith r3 [RBRACKET]
           then Some (1 + length ds + 3 + length qs + 1) else None)
     else None)"

text \<open>
  The pattern of the corner brackets: U+300E, then any run of characters other than U+300F,
  then U+300F.
\<close>

definition re_corner :: "jsstring \<Rightarrow> nat option" where
  "re_corner s = (case s of [] \<Rightarrow> None | c # cs \<Rightarrow>
     if c = LCORNER then
       (let body = takeWhile (\<lambda>x. x \<noteq> RCORNER) cs;
            rest = dropWhile (\<lambda>x. x \<noteq> RCORNER) cs
        in if rest = [] then None else Some (1 + length body + 1))
     else None)"

text \<open>U+7F00, a colon (fullwidth U+FF1A or ASCII), then \<^verbatim>\<open>.*\<close>: the rest of the line.\<close>

definition re_suffix :: "jsstring \<Rightarrow> nat option" where
  "re_suffix s = (case s of
       c # d # cs \<Rightarrow>
         if c = ZHUI \<and> (d = FULLWIDTH_COLON \<or> d = COLON)
         then Some (2 + length (takeWhile (\<lambda>x. \<not> isLineTerminator x) cs)) else None
     | _ \<Rightarrow> None)"

text \<open>U+524D U+7F00, a colon, then \<^verbatim>\<open>.*\<close>.\<close>

definition re_prefix :: "jsstring \<Rightarrow> nat option" where
  "re_prefix s = (case s of
       b # c # d # cs \<Rightarrow>
         if b = QIAN \<and> c = ZHUI \<and> (d = FULLWIDTH_COLON \<or> d = COLON)
         then Some (3 + length (takeWhile (\<lambda>x. \<not> isLineTerminator x) cs)) else None
     | _ \<Rightarrow> None)"

text \<open>\<^verbatim>\<open>/\n\s*\n/\<close>: from a newline to the last newline of the white space after it.\<close>

definition re_blank :: "jsstring \<Rightarrow> nat option" where
  "re_blank s = (case s of [] \<Rightarrow> None | c # cs \<Rightarrow>
     if c = NL then
       (let ws = takeWhile isSpace cs;
            m = rev (dropWhile (\<lambda>x. x \<noteq> NL) (rev ws))
        in if m = [] then None else Some (1 + length m))
     else None)"

text \<open>
  \<^verbatim>\<open>s.replace(re, rep)\<close> for a global pattern and a replacement without \<^verbatim>\<open>$\<close>: scan
  from the left; where the pattern matches, emit the replacement and go on behind the match,
  elsewhere keep the character. A match is taken to have at least one character, which
  holds of the six patterns above.
\<close>

fun replaceAll :: "(jsstring \<Rightarrow> nat option) \<Rightarrow> jsstring \<Rightarrow> jsstring \<Rightarrow> jsstring" where
  "replaceAll re rep [] = []"
| "replaceAll re rep (c # cs) =
     (case re (c # cs) of
        None \<Rightarrow> c # replaceAll re rep cs
      | Some n \<Rightarrow> rep @ replaceAll re rep (drop (n - 1) cs))"

section \<open>The text preprocessor\<close>

text \<open>
  The three phrasings of the level requirement that the loop looks for: U+9700 U+8981 U+7B49
  U+7D1A (the last character in its traditional form), U+7B49 U+7EA7 U+9700 U+6C42, and the
  English one.
\<close>

definition MARKER_TRAD :: jsstring where
  "MARKER_TRAD = [0x9700, 0x8981, 0x7B49, 0x7D1A]"

definition MARKER_SIMP :: jsstring where
  "MARKER_SIMP = [0x7B49, 0x7EA7, 0x9700, 0x6C42]"

definition MARKER_EN :: jsstring where
  "MARKER_EN = ascii ''Requires Level''"

definition isLevelLine :: "jsstring \<Rightarrow> bool" where
  "isLevelLine l = (includes_str l MARKER_TRAD \<or> includes_str l MARKER_SIMP \<or> includes_str l MARKER_EN)"

text \<open>The \<^verbatim>\<open>for\<close> loop from index \<open>i\<close>; \<open>None\<close> is the source's \<open>-1\<close>.\<close>

function levelRequirementIndex :: "jsstring list \<Rightarrow> nat \<Rightarrow> nat option" where
  "levelRequirementIndex lines i =
     (if i < length lines then
        (if isLevelLine (lines ! i) then Some i else levelRequirementIndex lines (i + 1))
      else None)"
  by pat_completeness auto
termination
  by (relation "measure (\<lambda>(lines, i). length lines - i)") auto

declare levelRequirementIndex.simps [simp del]

text \<open>The chain of substitutions and the \<^verbatim>\<open>trim\<close>: the source's \<^verbatim>\<open>processedText\<close>.\<close>

definition processedText :: "jsstring \<Rightarrow> jsstring" where
  "processedText ocrText =
     trim (replaceAll re_blank [NL]
       (replaceAll re_prefix []
         (replaceAll re_suffix []
           (replaceAll re_corner []
             (replaceAll re_numtag []
               (replaceAll re_bracket [] ocrText))))))"

definition preprocessOcrText :: "jsstring \<Rightarrow> jsstring" where
  "preprocessOcrText ocrText =
     (let lines = split (processedText ocrText) in
      case levelRequirementIndex lines 0 of
        Some i \<Rightarrow>
          (let nameLines = take (min 3 i) lines;
               propertyLines = drop i lines
           in trim (join (nameLines @ propertyLines)))
      | None \<Rightarrow> processedText ocrText)"

section \<open>The rotation formatter\<close>

record AreaInfo =
  name :: jsstring
  tier :: jsstring

text \<open>
  A rotation entry as the rotation API documents it. The comparator of the sort,
  \<^verbatim>\<open>a.time - b.time\<close>, is negative, zero or positive exactly as the two times compare,
  so only the order of the times matters and they are integers here.
\<close>

record RotationEntry =
  zone :: int
  time :: int

text \<open>
  The value that \<^verbatim>\<open>processTzOnlineData\<close> is given (its parameter has type
  \<^verbatim>\<open>any\<close>): what \<^verbatim>\<open>JSON.parse\<close> can give, with the elements of an array typed as
  rotation entries. An object lists each of its keys once.
\<close>

datatype jsvalue =
    JSUndefined
  | JSNull
  | JSBool bool
  | JSNumber int
  | JSString jsstring
  | JSArray "RotationEntry list"
  | JSObject "(jsstring \<times> jsvalue) list"

text \<open>What \<^verbatim>\<open>!v\<close> negates.\<close>

fun truthy :: "jsvalue \<Rightarrow> bool" where
  "truthy JSUndefined = False"
| "truthy JSNull = False"
| "truthy (JSBool b) = b"
| "truthy (JSNumber n) = (n \<noteq> 0)"
| "truthy (JSString s) = (s \<noteq> [])"
| "truthy (JSArray es) = True"
| "truthy (JSObject kvs) = True"

text \<open>
  \<^verbatim>\<open>data.data\<close> for a \<open>data\<close> that is neither \<^verbatim>\<open>undefined\<close> nor \<^verbatim>\<open>null\<close> (the
  source reads it only behind \<^verbatim>\<open>!data ||\<close>): the property of an object, and
  \<^verbatim>\<open>undefined\<close> on every other value.
\<close>

fun getData :: "jsvalue \<Rightarrow> jsvalue" where
  "getData (JSObject kvs) = (case map_of kvs (ascii ''data'') of None \<Rightarrow> JSUndefined | Some v \<Rightarrow> v)"
| "getData v = JSUndefined"

fun isArray :: "jsvalue \<Rightarrow> bool" where
  "isArray (JSArray es) = True"
| "isArray v = False"

fun elements :: "jsvalue \<Rightarrow> RotationEntry list" where
  "elements (JSArray es) = es"
| "elements v = []"

text \<open>
  The errors thrown in the rotation module: \<^verbatim>\<open>Invalid data format\<close>,
  \<^verbatim>\<open>Area info not found for current zone: <id>\<close>,
  \<^verbatim>\<open>Area info not found for next zone: <id>\<close>, \<^verbatim>\<open>HTTP error! status: <status>\<close>,
  the rejection of \<^verbatim>\<open>fetch\<close> and the \<^verbatim>\<open>SyntaxError\<close> of the JSON parser.
\<close>

datatype tz_error =
    InvalidDataFormat
  | AreaInfoNotFoundCurrent int
  | AreaInfoNotFoundNext int
  | HttpError nat
  | FetchRejected jsstring
  | JsonSyntaxError

text \<open>
  The area table \<open>areas\<close> is built from \<^verbatim>\<open>raw_areas\<close>, which is not part of the
  sources at hand: it is a parameter. \<^verbatim>\<open>Array.prototype.sort\<close> is stable, as
  \<^const>\<open>sort_key\<close> is. The two index reads are in range behind the length check.
\<close>

definition processTzOnlineData :: "(int \<rightharpoonup> AreaInfo) \<Rightarrow> jsvalue \<Rightarrow> tz_error + jsstring" where
  "processTzOnlineData areas data =
     (if \<not> truthy data \<or> \<not> truthy (getData data) \<or> \<not> isArray (getData data)
         \<or> length (elements (getData data)) < 2
      then Inl InvalidDataFormat
      else
        (let sortedData = sort_key time (elements (getData data));
             currentZoneData = sortedData ! 0;
             nextZoneData = sortedData ! 1;
             currentZoneId = zone currentZoneData;
             nextZoneId = zone nextZoneData
         in case areas currentZoneId of
              None \<Rightarrow> Inl (AreaInfoNotFoundCurrent currentZoneId)
            | Some currentAreaInfo \<Rightarrow>
                (case areas nextZoneId of
                   None \<Rightarrow> Inl (AreaInfoNotFoundNext nextZoneId)
                 | Some nextAreaInfo \<Rightarrow>
                     Inr (ascii ''TZ'' @ [0xFF1A] @ name currentAreaInfo @ [0xFF0C, 0x6389, 0x843D, 0xFF1A]
                          @ tier currentAreaInfo @ [NL]
                          @ ascii ''Next'' @ [0xFF1A] @ name nextAreaInfo @ [0xFF0C, 0x6389, 0x843D, 0xFF1A]
                          @ tier nextAreaInfo))))"

section \<open>The rotation fetcher\<close>

text \<open>
  A \<^verbatim>\<open>Date\<close> through the getters the source calls: the milliseconds since the epoch
  and the calendar fields of the local time.
\<close>

record Date =
  getTime :: int
  getFullYear :: int
  getMonth :: int
  getDate :: int
  getHours :: int

record CacheFile =
  mtime :: Date
  content :: jsstring

text \<open>The part of the file system the fetcher touches: the cache directory and the cache file.\<close>

record FileSystem =
  cacheDirExists :: bool
  cacheFile :: "CacheFile option"

record 'b Response =
  status :: nat
  statusText :: jsstring
  body :: 'b

definition ok :: "('b, 'z) Response_scheme \<Rightarrow> bool" where
  "ok r = (200 \<le> status r \<and> status r \<le> 299)"

text \<open>What awaiting \<^verbatim>\<open>fetch\<close> gives: a rejection with the message of its error, or a response.\<close>

datatype 'b FetchOutcome = Rejected jsstring | Resolved "'b Response"

record Config =
  apiUrl :: "jsstring option"
  ocrApiUrl :: jsstring
  ocrApiKey :: jsstring
  aiApiUrl :: jsstring
  aiApiKey :: jsstring
  aiModel :: jsstring
  mockMode :: bool
  testMode :: bool

text \<open>
  What the fetcher finds around it: the file system, the clock read by \<^verbatim>\<open>new Date()\<close>,
  the answer of the network to a GET of a URL, and the clock when the cache file is written.
\<close>

record World =
  fs :: FileSystem
  now :: Date
  network :: "jsstring \<Rightarrow> jsstring FetchOutcome"
  writeClock :: Date

text \<open>\<^verbatim>\<open>config?.apiUrl || "https://api.d2-trade.com/api/query/tz_online"\<close>\<close>

definition requestUrl :: "Config option \<Rightarrow> jsstring" where
  "requestUrl config =
     (case config of
        None \<Rightarrow> ascii ''https://api.d2-trade.com/api/query/tz_online''
      | Some c \<Rightarrow>
          (case apiUrl c of
             None \<Rightarrow> ascii ''https://api.d2-trade.com/api/query/tz_online''
           | Some u \<Rightarrow> if u = [] then ascii ''https://api.d2-trade.com/api/query/tz_online'' else u))"

text \<open>
  \<^verbatim>\<open>JSON.parse\<close> (\<open>None\<close> where it throws) and \<^verbatim>\<open>JSON.stringify(data, null, 2)\<close>
  belong to the runtime and are parameters. The function gives its result or the error
  thrown, the file system it leaves, and the URLs it has requested, in order.
\<close>

definition fetchTzOnline ::
  "(jsstring \<Rightarrow> jsvalue option) \<Rightarrow> (jsvalue \<Rightarrow> jsstring) \<Rightarrow> Config option \<Rightarrow> World
     \<Rightarrow> (tz_error + jsvalue) \<times> FileSystem \<times> jsstring list" where
  "fetchTzOnline JSON_parse JSON_stringify config w =
     (let fs1 = (if \<not> cacheDirExists (fs w) then (fs w)\<lparr>cacheDirExists := True\<rparr> else fs w);
          cached =
            (case cacheFile fs1 of
               None \<Rightarrow> None
             | Some f \<Rightarrow>
                 (let cacheTime = mtime f;
                      isSameHour = (getHours (now w) = getHours cacheTime
                                    \<and> getDate (now w) = getDate cacheTime
                                    \<and> getMonth (now w) = getMonth cacheTime
                                    \<and> getFullYear (now w) = getFullYear cacheTime);
                      timeDiff = getTime (now w) - getTime cacheTime;
                      isWithin30Minutes = (timeDiff < 30 * 60 * 1000)
                  in if isWithin30Minutes \<and> isSameHour then Some (content f) else None))
      in case cached of
           Some cachedData \<Rightarrow>
             (case JSON_parse cachedData of
                None \<Rightarrow> (Inl JsonSyntaxError, fs1, [])
              | Some v \<Rightarrow> (Inr v, fs1, []))
         | None \<Rightarrow>
             (let url = requestUrl config in
              case network w url of
                Rejected m \<Rightarrow> (Inl (FetchRejected m), fs1, [url])
              | Resolved response \<Rightarrow>
                  if \<not> ok response then (Inl (HttpError (status response)), fs1, [url])
                  else
                    (case JSON_parse (body response) of
                       None \<Rightarrow> (Inl JsonSyntaxError, fs1, [url])
                     | Some data \<Rightarrow>
                         (Inr data,
                          fs1\<lparr>cacheFile :=
                                Some \<lparr>mtime = writeClock w, content = JSON_stringify data\<rparr>\<rparr>,
                          [url]))))"

section \<open>The OCR call and the AI call\<close>

text \<open>The decimal digits of a number, as a template string prints the status.\<close>

fun decimal :: "nat \<Rightarrow> jsstring" where
  "decimal n =
     (if n < 10 then [0x30 + of_nat n] else decimal (n div 10) @ [0x30 + of_nat (n mod 10)])"

declare decimal.simps [simp del]

text \<open>
  The results \<^verbatim>\<open>{ success, text?, error? }\<close> and \<^verbatim>\<open>{ success, analysis?, error? }\<close>
  of the two calls, in one record; an absent property is \<open>None\<close>.
\<close>

record CallResult =
  success :: bool
  resultText :: "jsstring option"
  analysis :: "jsstring option"
  error :: "jsstring option"

text \<open>
  The two POST requests, by what they carry: the URL, the key of the bearer token, and the
  image URL of the OCR request or the model, system prompt and user prompt of the AI request.
\<close>

datatype ChatRequest =
    OcrRequest jsstring jsstring jsstring
  | AiRequest jsstring jsstring jsstring jsstring jsstring

text \<open>
  The body of a chat-completion response, as the source reads it: either reading it throws
  an error with a message (\<^verbatim>\<open>response.json()\<close> on a body that is not JSON, or
  \<^verbatim>\<open>result.choices\<close> on a \<open>null\<close> result), or
  \<^verbatim>\<open>result.choices?.[0]?.message?.content\<close> has a value: a string, or nothing.
\<close>

datatype ChatBody = BodyThrows jsstring | Content "jsstring option"

definition MOCK_OCR_TEXT :: jsstring where
  "MOCK_OCR_TEXT =
     [0x6697, 0x9ED1, 0x7834, 0x574F, 0x795E, 0x88C5, 0x5907, 0x4FE1, 0x606F, 0xFF1A, NL,
     0x529B, 0x91CF] @ ascii '' +15'' @ [NL, 0x654F, 0x6377] @ ascii '' +10'' @ [NL,
     0x6700, 0x5927, 0x751F, 0x547D, 0x503C] @ ascii '' +20'' @ [NL, 0x9632, 0x5FA1] @
     ascii '' +50'' @ [NL, 0x7B49, 0x7EA7, 0x9700, 0x6C42] @ ascii '' 25'' @ [NL, 0x7A00,
     0x6709, 0x5EA6, 0xFF1A, 0x9B54, 0x6CD5, 0x7269, 0x54C1]"

definition MOCK_ANALYSIS :: jsstring where
  "MOCK_ANALYSIS =
     [0x8FD9, 0x662F, 0x4E00, 0x4EF6, 0x4E2D, 0x7EA7, 0x9B54, 0x6CD5, 0x88C5, 0x5907,
     0xFF0C, 0x5C5E, 0x6027, 0x8F83, 0x4E3A, 0x666E, 0x901A, 0x3002, 0x529B, 0x91CF,
     0x548C, 0x654F, 0x6377, 0x7684, 0x52A0, 0x6210, 0x5BF9, 0x8FD1, 0x6218, 0x804C,
     0x4E1A, 0x6709, 0x4E00, 0x5B9A, 0x5E2E, 0x52A9, 0xFF0C, 0x4F46, 0x6574, 0x4F53,
     0x5C5E, 0x6027, 0x5E76, 0x4E0D, 0x7A81, 0x51FA, 0x3002, 0x5EFA, 0x8BAE, 0x4F5C,
     0x4E3A, 0x8FC7, 0x6E21, 0x88C5, 0x5907, 0x4F7F, 0x7528, 0xFF0C, 0x4E0D, 0x5EFA,
     0x8BAE, 0x957F, 0x671F, 0x4FDD, 0x7559, 0x3002]"

text \<open>The literals of the two calls: the prefixes of their error messages and their default texts.\<close>

definition OCR_ERROR :: jsstring where
  "OCR_ERROR = ascii ''OCR'' @ [0x8BC6, 0x522B, 0x51FA, 0x9519] @ ascii '': ''"

definition OCR_REQUEST_FAILED :: jsstring where
  "OCR_REQUEST_FAILED = ascii ''OCR'' @ [0x8BF7, 0x6C42, 0x5931, 0x8D25] @ ascii '': ''"

definition OCR_NO_TEXT :: jsstring where
  "OCR_NO_TEXT = [0x65E0, 0x6CD5, 0x63D0, 0x53D6] @ ascii ''OCR'' @ [0x6587, 0x672C]"

definition AI_ERROR :: jsstring where
  "AI_ERROR = ascii ''AI'' @ [0x5206, 0x6790, 0x51FA, 0x9519] @ ascii '': ''"

definition AI_REQUEST_FAILED :: jsstring where
  "AI_REQUEST_FAILED = ascii ''AI'' @ [0x5206, 0x6790, 0x8BF7, 0x6C42, 0x5931, 0x8D25] @ ascii '': ''"

definition AI_NO_ANALYSIS :: jsstring where
  "AI_NO_ANALYSIS = [0x65E0, 0x6CD5, 0x83B7, 0x53D6] @ ascii ''AI'' @ [0x5206, 0x6790, 0x7ED3, 0x679C]"

text \<open>
  The functions give their result and the requests they have sent. The delay of the mock
  mode is not part of the model.
\<close>

definition recognizeImage ::
  "Config \<Rightarrow> (ChatRequest \<Rightarrow> ChatBody FetchOutcome) \<Rightarrow> jsstring \<Rightarrow> CallResult \<times> ChatRequest list" where
  "recognizeImage config net imageUrl =
     (if mockMode config then
        (\<lparr>success = True, resultText = Some MOCK_OCR_TEXT, analysis = None, error = None\<rparr>, [])
      else
        (let request = OcrRequest (ocrApiUrl config) (ocrApiKey config) imageUrl in
         case net request of
           Rejected m \<Rightarrow>
             (\<lparr>success = False, resultText = None, analysis = None,
               error = Some (OCR_ERROR @ m)\<rparr>, [request])
         | Resolved response \<Rightarrow>
             if \<not> ok response then
               (\<lparr>success = False, resultText = None, analysis = None,
                 error = Some (OCR_REQUEST_FAILED
                               @ decimal (status response) @ ascii '' '' @ statusText response)\<rparr>,
                [request])
             else
               (case body response of
                  BodyThrows m \<Rightarrow>
                    (\<lparr>success = False, resultText = None, analysis = None,
                      error = Some (OCR_ERROR @ m)\<rparr>, [request])
                | Content c \<Rightarrow>
                    (\<lparr>success = True,
                      resultText = Some (case c of None \<Rightarrow> OCR_NO_TEXT
                                      | Some t \<Rightarrow> if t = [] then OCR_NO_TEXT else t),
                      analysis = None, error = None\<rparr>, [request]))))"

text \<open>
  \<^verbatim>\<open>system_prompt\<close> and \<^verbatim>\<open>itemAnalysisPrompt\<close> come from \<^verbatim>\<open>prompts\<close>, which is
  not part of the sources at hand: they are parameters.
\<close>

definition analyzeItem ::
  "jsstring \<Rightarrow> (jsstring \<Rightarrow> jsstring) \<Rightarrow> Config \<Rightarrow> (ChatRequest \<Rightarrow> ChatBody FetchOutcome) \<Rightarrow> jsstring
     \<Rightarrow> CallResult \<times> ChatRequest list" where
  "analyzeItem system_prompt itemAnalysisPrompt config net ocrText =
     (if mockMode config then
        (\<lparr>success = True, resultText = None, analysis = Some MOCK_ANALYSIS, error = None\<rparr>, [])
      else
        (let processed = preprocessOcrText ocrText;
             prompt = itemAnalysisPrompt processed;
             request = AiRequest (aiApiUrl config) (aiApiKey config) (aiModel config)
                         system_prompt prompt
         in case net request of
           Rejected m \<Rightarrow>
             (\<lparr>success = False, resultText = None, analysis = None,
               error = Some (AI_ERROR @ m)\<rparr>, [request])
         | Resolved response \<Rightarrow>
             if \<not> ok response then
               (\<lparr>success = False, resultText = None, analysis = None,
                 error = Some (AI_REQUEST_FAILED
                               @ decimal (status response) @ ascii '' '' @ statusText response)\<rparr>,
                [request])
             else
               (case body response of
                  BodyThrows m \<Rightarrow>
                    (\<lparr>success = False, resultText = None, analysis = None,
                      error = Some (AI_ERROR @ m)\<rparr>, [request])
                | Content c \<Rightarrow>
                    (\<lparr>success = True, resultText = None,
                      analysis = Some (case c of None \<Rightarrow> AI_NO_ANALYSIS
                                       | Some t \<Rightarrow> if t = [] then AI_NO_ANALYSIS else t),
                      error = None\<rparr>, [request]))))"

section \<open>The command layer\<close>

text \<open>How a template string prints a property that may be absent.\<close>

definition interpolate :: "jsstring option \<Rightarrow> jsstring" where
  "interpolate v = (case v of None \<Rightarrow> ascii ''undefined'' | Some s \<Rightarrow> s)"

text \<open>
  The literals of the action: the reply of the test mode to an empty argument, the prefix
  of the reply to a failed analysis, the prefix of the reply to a failed recognition, and
  the reply when no image reference is found.
\<close>

definition MSG_TEST_MODE_NO_TEXT :: jsstring where
  "MSG_TEST_MODE_NO_TEXT =
     [0x6D4B, 0x8BD5, 0x6A21, 0x5F0F, 0x4E0B, 0xFF0C, 0x8BF7, 0x76F4, 0x63A5, 0x8F93, 0x5165]
     @ ascii ''OCR''
     @ [0x8BC6, 0x522B, 0x540E, 0x7684, 0x6587, 0x672C, 0x5185, 0x5BB9, 0x3002]"

definition MSG_VALUE_FAILED :: jsstring where
  "MSG_VALUE_FAILED =
     [0x88C5, 0x5907, 0x4EF7, 0x503C, 0x5206, 0x6790, 0x5931, 0x8D25] @ ascii '': ''"

definition MSG_OCR_FAILED :: jsstring where
  "MSG_OCR_FAILED =
     [0x88C5, 0x5907, 0x5C5E, 0x6027, 0x8BC6, 0x522B, 0x5931, 0x8D25] @ ascii '': ''"

definition MSG_NO_SCREENSHOT :: jsstring where
  "MSG_NO_SCREENSHOT =
     [0x672A, 0x68C0, 0x6D4B, 0x5230, 0x6709, 0x6548, 0x7684, 0x88C5, 0x5907, 0x622A, 0x56FE,
      0xFF0C, 0x8BF7, 0x91CD, 0x65B0, 0x53D1, 0x9001, 0x3002]"

text \<open>
  The action of the item command. \<open>imageArg\<close> is its text argument
  (\<^verbatim>\<open>image\<close>), \<open>src\<close> the image reference that the selectors find in the
  message or the quoted one, and \<open>promptSrc\<close> the one found in the follow-up message, if the user sends one in time; sending and deleting
  the prompt message is not part of the model. The action returns a string or
  \<^verbatim>\<open>undefined\<close>, or it throws: \<^verbatim>\<open>analyzeItem\<close> preprocesses its text outside its
  \<^verbatim>\<open>try\<close>, and \<^verbatim>\<open>undefined.replace\<close> is a \<^verbatim>\<open>TypeError\<close>.
\<close>

datatype Reply = Throws | Returns "jsstring option"

definition itemAction ::
  "jsstring \<Rightarrow> (jsstring \<Rightarrow> jsstring) \<Rightarrow> Config \<Rightarrow> (ChatRequest \<Rightarrow> ChatBody FetchOutcome)
     \<Rightarrow> jsstring option \<Rightarrow> jsstring option \<Rightarrow> jsstring option
     \<Rightarrow> Reply \<times> ChatRequest list" where
  "itemAction system_prompt itemAnalysisPrompt config net imageArg src promptSrc =
     (if testMode config then
        (case imageArg of
           None \<Rightarrow> (Returns (Some MSG_TEST_MODE_NO_TEXT), [])
         | Some t \<Rightarrow>
             if t = [] then (Returns (Some MSG_TEST_MODE_NO_TEXT), [])
             else
               (let (analysisResult, sent) = analyzeItem system_prompt itemAnalysisPrompt config net t
                in if \<not> success analysisResult
                   then (Returns (Some (MSG_VALUE_FAILED @ interpolate (error analysisResult))), sent)
                   else (Returns (analysis analysisResult), sent)))
      else
        (let src1 = (case src of None \<Rightarrow> promptSrc
                     | Some u \<Rightarrow> if u = [] then promptSrc else Some u)
         in case src1 of
              None \<Rightarrow> (Returns (Some MSG_NO_SCREENSHOT), [])
            | Some u \<Rightarrow>
                if u = [] then (Returns (Some MSG_NO_SCREENSHOT), [])
                else
                  (let (ocrResult, sent1) = recognizeImage config net u
                   in if \<not> success ocrResult
                      then (Returns (Some (MSG_OCR_FAILED @ interpolate (error ocrResult))), sent1)
                      else
                        (case resultText ocrResult of
                           None \<Rightarrow>
                             if mockMode config then (Returns (Some MOCK_ANALYSIS), sent1)
                             else (Throws, sent1)
                         | Some t \<Rightarrow>
                             (let (analysisResult, sent2) =
                                    analyzeItem system_prompt itemAnalysisPrompt config net t
                              in if \<not> success analysisResult
                                 then (Returns (Some (MSG_VALUE_FAILED @ interpolate (error analysisResult))),
                                       sent1 @ sent2)
                                 else (Returns (analysis analysisResult), sent1 @ sent2))))))"

section \<open>An example of the runtime\<close>

text \<open>
  The texts of the examples of the fetcher: the compact text \<^verbatim>\<open>{"data":[]}\<close>, the
  same value as \<^verbatim>\<open>JSON.stringify(data, null, 2)\<close> prints it (an opening brace, a
  newline, two spaces and \<^verbatim>\<open>"data": []\<close>, a newline, a closing brace), and a text
  that is not JSON. \<open>example_parse\<close> and \<open>example_stringify\<close> are \<^verbatim>\<open>JSON.parse\<close>
  and \<^verbatim>\<open>JSON.stringify(data, null, 2)\<close> on these texts and on the value they denote;
  the examples apply them to nothing else. All example times lie in one hour of one day.
\<close>

abbreviation EXAMPLE_COMPACT :: jsstring where
  "EXAMPLE_COMPACT \<equiv> [0x7B, 0x22] @ ascii ''data'' @ [0x22] @ ascii '':[]}''"

abbreviation EXAMPLE_INDENTED :: jsstring where
  "EXAMPLE_INDENTED \<equiv>
     [0x7B, NL] @ ascii ''  '' @ [0x22] @ ascii ''data'' @ [0x22] @ ascii '': []'' @ [NL, 0x7D]"

abbreviation EXAMPLE_NOT_JSON :: jsstring where
  "EXAMPLE_NOT_JSON \<equiv> ascii ''<html>''"

abbreviation EXAMPLE_VALUE :: jsvalue where
  "EXAMPLE_VALUE \<equiv> JSObject [(ascii ''data'', JSArray [])]"

abbreviation example_parse :: "jsstring \<Rightarrow> jsvalue option" where
  "example_parse \<equiv>
     (\<lambda>s. if s = EXAMPLE_COMPACT \<or> s = EXAMPLE_INDENTED then Some EXAMPLE_VALUE else None)"

abbreviation example_stringify :: "jsvalue \<Rightarrow> jsstring" where
  "example_stringify \<equiv> (\<lambda>v. if v = EXAMPLE_VALUE then EXAMPLE_INDENTED else [])"

abbreviation example_time :: "int \<Rightarrow> Date" where
  "example_time ms \<equiv>
     \<lparr>getTime = ms, getFullYear = 2023, getMonth = 10, getDate = 14, getHours = 22\<rparr>"

text \<open>
  A world whose cache file was written at 1700000000000 with the indented text, whose
  clock reads \<open>t\<close>, and whose server answers 200 with the body \<open>b\<close>.
\<close>

abbreviation example_world :: "int \<Rightarrow> jsstring \<Rightarrow> World" where
  "example_world t b \<equiv>
     \<lparr>fs = \<lparr>cacheDirExists = True,
            cacheFile = Some \<lparr>mtime = example_time 1700000000000,
                               content = EXAMPLE_INDENTED\<rparr>\<rparr>,
      now = example_time t,
      network = (\<lambda>url. Resolved \<lparr>status = 200, statusText = ascii ''OK'', body = b\<rparr>),
      writeClock = example_time (t + 500)\<rparr>"

section \<open>Predicates on strings\<close>

text \<open>
  The properties in which the idempotence of the preprocessor is proved: a pattern matches
  at no position of a string; a string neither begins nor ends with white space; and a
  string on which the substitutions and the trim of \<^const>\<open>processedText\<close> find nothing.
\<close>

fun noMatch :: "(jsstring \<Rightarrow> nat option) \<Rightarrow> jsstring \<Rightarrow> bool" where
  "noMatch re [] = True"
| "noMatch re (c # cs) = (re (c # cs) = None \<and> noMatch re cs)"

definition trimmed :: "jsstring \<Rightarrow> bool" where
  "trimmed s = (s = [] \<or> (\<not> isSpace (hd s) \<and> \<not> isSpace (last s)))"

definition clean :: "jsstring \<Rightarrow> bool" where
  "clean s = (noMatch re_bracket s \<and> noMatch re_corner s \<and> noMatch re_suffix s
              \<and> noMatch re_blank s \<and> trimmed s)"

section \<open>Evaluating the model\<close>

lemmas regex_defs = re_bracket_def re_numtag_def re_corner_def re_suffix_def re_prefix_def
  re_blank_def startsWith_def ETH_CLOSE_def ED_SLASH_def isSpace_def isDigit_def
  isLineTerminator_def ascii_def

lemmas marker_defs = isLevelLine_def MARKER_TRAD_def MARKER_SIMP_def MARKER_EN_def

section \<open>The text preprocessor on the examples\<close>

text \<open>
  Claim C4. On the two-line text whose first line is \<^verbatim>\<open>[ETH]\<close> followed by U+65E0 U+5F62
  U+4E4B U+5203 and whose second line is U+9700 U+8981 U+7B49 U+7EA7 and \<^verbatim>\<open> 30\<close>,
  \<^const>\<open>preprocessOcrText\<close> returns its input unchanged: the bracket pattern does not
  touch the marker \<^verbatim>\<open>[ETH]\<close>.
\<close>

theorem C4_eth_marker_kept:
  "preprocessOcrText (ascii ''[ETH]'' @ [0x65E0, 0x5F62, 0x4E4B, 0x5203, NL, 0x9700, 0x8981, 0x7B49, 0x7EA7] @ ascii '' 30'')
     = ascii ''[ETH]'' @ [0x65E0, 0x5F62, 0x4E4B, 0x5203, NL, 0x9700, 0x8981, 0x7B49, 0x7EA7] @ ascii '' 30''"
  by (simp add: preprocessOcrText_def processedText_def trim_def regex_defs marker_defs
      levelRequirementIndex.simps)

text \<open>
  Claim C5. On the three-line text of the claim (a first line ending in the tag
  \<^verbatim>\<open>[290ED/6/6/4]\<close>, the line U+9700 U+8981 U+7B49 U+7EA7 \<^verbatim>\<open> 25\<close>, and a third line)
  the tag is stripped and the three lines are returned. The loop, however, finds no level
  line: the phrasing of the second line ends in U+7EA7, and the loop looks for U+7D1A in
  its place. On a text with four lines before such a line, all five lines are returned.
\<close>

theorem C5_level_line_not_found:
  "levelRequirementIndex
     (split (processedText ([0x529B, 0x91CF] @ ascii ''+10[290ED/6/6/4]'' @ [NL, 0x9700, 0x8981, 0x7B49, 0x7EA7] @ ascii '' 25'' @ [NL, 0x7A00, 0x6709, 0x5EA6, 0xFF1A, 0x9B54, 0x6CD5]))) 0 = None
   \<and> preprocessOcrText ([0x529B, 0x91CF] @ ascii ''+10[290ED/6/6/4]'' @ [NL, 0x9700, 0x8981, 0x7B49, 0x7EA7] @ ascii '' 25'' @ [NL, 0x7A00, 0x6709, 0x5EA6, 0xFF1A, 0x9B54, 0x6CD5])
     = [0x529B, 0x91CF] @ ascii ''+10'' @ [NL, 0x9700, 0x8981, 0x7B49, 0x7EA7] @ ascii '' 25'' @ [NL, 0x7A00, 0x6709, 0x5EA6, 0xFF1A, 0x9B54, 0x6CD5]
   \<and> preprocessOcrText ([0x0061, NL, 0x0062, NL, 0x0063, NL, 0x0064, NL, 0x9700, 0x8981, 0x7B49, 0x7EA7] @ ascii '' 25'')
     = [0x0061, NL, 0x0062, NL, 0x0063, NL, 0x0064, NL, 0x9700, 0x8981, 0x7B49, 0x7EA7] @ ascii '' 25''"
  by (simp add: preprocessOcrText_def processedText_def trim_def regex_defs marker_defs
      levelRequirementIndex.simps)

section \<open>The loop and the truncation\<close>

lemma levelRequirementIndex_first:
  assumes "k \<le> i" and "i < length lines" and "isLevelLine (lines ! i)"
    and "\<forall>j. k \<le> j \<and> j < i \<longrightarrow> \<not> isLevelLine (lines ! j)"
  shows "levelRequirementIndex lines k = Some i"
  using assms
proof (induction lines k rule: levelRequirementIndex.induct)
  case (1 lines k)
  show ?case
  proof (cases "k = i")
    case True
    then show ?thesis using "1.prems" by (subst levelRequirementIndex.simps) simp
  next
    case False
    then have lt: "k < i" using "1.prems"(1) by simp
    then have no: "\<not> isLevelLine (lines ! k)" using "1.prems"(4) by simp
    have kl: "k < length lines" using lt "1.prems"(2) by simp
    have "levelRequirementIndex lines (k + 1) = Some i"
      using "1.IH" [OF kl no] lt "1.prems" by simp
    then show ?thesis using kl no by (subst levelRequirementIndex.simps) simp
  qed
qed

lemma levelRequirementIndex_none:
  assumes "\<forall>j. k \<le> j \<and> j < length lines \<longrightarrow> \<not> isLevelLine (lines ! j)"
  shows "levelRequirementIndex lines k = None"
  using assms
proof (induction lines k rule: levelRequirementIndex.induct)
  case (1 lines k)
  show ?case
  proof (cases "k < length lines")
    case True
    then have no: "\<not> isLevelLine (lines ! k)" using "1.prems" by simp
    have "levelRequirementIndex lines (k + 1) = None"
      using "1.IH" [OF True no] "1.prems" by simp
    then show ?thesis using True no by (subst levelRequirementIndex.simps) simp
  next
    case False
    then show ?thesis by (subst levelRequirementIndex.simps) simp
  qed
qed

text \<open>
  Claim C3. The claim has every line that contains a level phrasing be the line from which
  the text is kept, the lines between the third and that line being dropped. With the
  phrasing U+9700 U+8981 U+7B49 U+7D1A the function does so: of five lines, the fourth is
  dropped. With the phrasing U+9700 U+8981 U+7B49 U+7EA7, which the comment above the loop
  names, the line is not found and all five lines are returned.
\<close>

theorem C3_simplified_phrasing_not_found:
  "\<not> isLevelLine ([0x9700, 0x8981, 0x7B49, 0x7EA7] @ ascii '' 25'')
   \<and> preprocessOcrText
         (ascii ''a'' @ [NL] @ ascii ''b'' @ [NL] @ ascii ''c'' @ [NL] @ ascii ''d''
          @ [NL, 0x9700, 0x8981, 0x7B49, 0x7EA7] @ ascii '' 25'')
       = ascii ''a'' @ [NL] @ ascii ''b'' @ [NL] @ ascii ''c'' @ [NL] @ ascii ''d''
         @ [NL, 0x9700, 0x8981, 0x7B49, 0x7EA7] @ ascii '' 25''
   \<and> isLevelLine ([0x9700, 0x8981, 0x7B49, 0x7D1A] @ ascii '' 25'')
   \<and> preprocessOcrText
         (ascii ''a'' @ [NL] @ ascii ''b'' @ [NL] @ ascii ''c'' @ [NL] @ ascii ''d''
          @ [NL, 0x9700, 0x8981, 0x7B49, 0x7D1A] @ ascii '' 25'')
       = ascii ''a'' @ [NL] @ ascii ''b'' @ [NL] @ ascii ''c''
         @ [NL, 0x9700, 0x8981, 0x7B49, 0x7D1A] @ ascii '' 25''"
  by (simp add: preprocessOcrText_def processedText_def trim_def regex_defs marker_defs
      levelRequirementIndex.simps)

section \<open>The rotation formatter: errors and output\<close>

lemma getData_array_truthy: "getData data = JSArray entries \<Longrightarrow> truthy data"
  by (cases data) simp_all

lemma processTzOnlineData_array:
  assumes "getData data = JSArray entries" and "2 \<le> length entries"
  shows "processTzOnlineData areas data =
     (case areas (zone (sort_key time entries ! 0)) of
        None \<Rightarrow> Inl (AreaInfoNotFoundCurrent (zone (sort_key time entries ! 0)))
      | Some cur \<Rightarrow>
          (case areas (zone (sort_key time entries ! 1)) of
             None \<Rightarrow> Inl (AreaInfoNotFoundNext (zone (sort_key time entries ! 1)))
           | Some nxt \<Rightarrow>
               Inr (ascii ''TZ'' @ [0xFF1A] @ name cur @ [0xFF0C, 0x6389, 0x843D, 0xFF1A] @ tier cur @ [NL]
                    @ ascii ''Next'' @ [0xFF1A] @ name nxt @ [0xFF0C, 0x6389, 0x843D, 0xFF1A] @ tier nxt)))"
proof -
  have "truthy data" using assms(1) by (rule getData_array_truthy)
  moreover have "\<not> length (elements (getData data)) < 2" using assms by simp
  ultimately show ?thesis
    unfolding processTzOnlineData_def Let_def using assms(1) by (simp split: option.split)
qed

lemma example_sorted:
  "sort_key time [\<lparr>zone = 1, time = 200\<rparr>, \<lparr>zone = 2, time = 100\<rparr>]
     = [\<lparr>zone = 2, time = 100\<rparr>, \<lparr>zone = 1, time = 200\<rparr>]"
  by simp

text \<open>
  Claim C2. For a payload whose \<^verbatim>\<open>data\<close> is an array of at least two entries: the
  entries sorted by \<^const>\<open>time\<close> are in ascending order and are the same entries, and if
  the area table maps the zone of the first sorted entry to \<open>n1\<close>, \<open>t1\<close> and that of the
  second to \<open>n2\<close>, \<open>t2\<close>, the result is the two-line string built from them.
\<close>

theorem C2_format:
  assumes "getData data = JSArray entries" and "2 \<le> length entries"
    and "areas (zone (sort_key time entries ! 0)) = Some \<lparr>name = n1, tier = t1\<rparr>"
    and "areas (zone (sort_key time entries ! 1)) = Some \<lparr>name = n2, tier = t2\<rparr>"
  shows "sorted (map time (sort_key time entries))
         \<and> mset (sort_key time entries) = mset entries
         \<and> processTzOnlineData areas data
             = Inr (ascii ''TZ'' @ [0xFF1A] @ n1 @ [0xFF0C, 0x6389, 0x843D, 0xFF1A] @ t1 @ [NL]
                    @ ascii ''Next'' @ [0xFF1A] @ n2 @ [0xFF0C, 0x6389, 0x843D, 0xFF1A] @ t2)"
  unfolding processTzOnlineData_array [OF assms(1,2)] using assms(3,4) by simp

text \<open>
  The example of the specification: zone 1 at time 200 and zone 2 at time 100, with the
  table 1 to A, X and 2 to B, Y.
\<close>

theorem C2_format_witness:
  "processTzOnlineData
     [1 \<mapsto> \<lparr>name = ascii ''A'', tier = ascii ''X''\<rparr>, 2 \<mapsto> \<lparr>name = ascii ''B'', tier = ascii ''Y''\<rparr>]
     (JSObject [(ascii ''data'', JSArray [\<lparr>zone = 1, time = 200\<rparr>, \<lparr>zone = 2, time = 100\<rparr>])])
   = Inr (ascii ''TZ'' @ [0xFF1A, 0x0042, 0xFF0C, 0x6389, 0x843D, 0xFF1A, 0x0059, NL] @ ascii ''Next'' @ [0xFF1A, 0x0041, 0xFF0C, 0x6389, 0x843D, 0xFF1A, 0x0058])"
proof -
  have "processTzOnlineData
     [1 \<mapsto> \<lparr>name = ascii ''A'', tier = ascii ''X''\<rparr>, 2 \<mapsto> \<lparr>name = ascii ''B'', tier = ascii ''Y''\<rparr>]
     (JSObject [(ascii ''data'', JSArray [\<lparr>zone = 1, time = 200\<rparr>, \<lparr>zone = 2, time = 100\<rparr>])])
     = Inr (ascii ''TZ'' @ [0xFF1A] @ ascii ''B'' @ [0xFF0C, 0x6389, 0x843D, 0xFF1A] @ ascii ''Y'' @ [NL]
            @ ascii ''Next'' @ [0xFF1A] @ ascii ''A'' @ [0xFF0C, 0x6389, 0x843D, 0xFF1A] @ ascii ''X'')"
    by (rule C2_format [where entries = "[\<lparr>zone = 1, time = 200\<rparr>, \<lparr>zone = 2, time = 100\<rparr>]",
          THEN conjunct2, THEN conjunct2]) (simp_all add: example_sorted)
  then show ?thesis by (simp add: ascii_def)
qed

text \<open>
  Claim C6. A payload without a \<^verbatim>\<open>data\<close> property, or whose \<^verbatim>\<open>data\<close> is not an
  array, or is an array of fewer than two entries, gives the error
  \<^const>\<open>InvalidDataFormat\<close>, hence no string.
\<close>

theorem C6_invalid_data:
  assumes "(\<exists>kvs. data = JSObject kvs \<and> map_of kvs (ascii ''data'') = None)
           \<or> \<not> isArray (getData data)
           \<or> (\<exists>es. getData data = JSArray es \<and> length es < 2)"
  shows "processTzOnlineData areas data = Inl InvalidDataFormat"
proof -
  have "\<not> truthy (getData data) \<or> \<not> isArray (getData data)
        \<or> length (elements (getData data)) < 2"
    using assms by auto
  then show ?thesis unfolding processTzOnlineData_def by simp
qed

theorem C6_invalid_data_witness:
  "processTzOnlineData Map.empty (JSObject []) = Inl InvalidDataFormat
   \<and> processTzOnlineData Map.empty (JSObject [(ascii ''data'', JSString (ascii ''x''))])
       = Inl InvalidDataFormat
   \<and> processTzOnlineData Map.empty
         (JSObject [(ascii ''data'', JSArray [\<lparr>zone = 1, time = 200\<rparr>])])
       = Inl InvalidDataFormat"
proof (intro conjI)
  show "processTzOnlineData Map.empty (JSObject []) = Inl InvalidDataFormat"
    by (rule C6_invalid_data) simp
  show "processTzOnlineData Map.empty (JSObject [(ascii ''data'', JSString (ascii ''x''))])
       = Inl InvalidDataFormat"
    by (rule C6_invalid_data) simp
  show "processTzOnlineData Map.empty
         (JSObject [(ascii ''data'', JSArray [\<lparr>zone = 1, time = 200\<rparr>])])
       = Inl InvalidDataFormat"
    by (rule C6_invalid_data) simp
qed

text \<open>
  Claim C7. For a payload whose \<^verbatim>\<open>data\<close> is an array of at least two entries, if the
  area table has no entry for the zone of the first sorted entry, the result is the error
  for the current zone, carrying that zone; if it has one for the first but none for the
  second, the result is the error for the next zone, carrying that zone. In neither case
  is the result a string.
\<close>

theorem C7_area_not_found:
  assumes "getData data = JSArray entries" and "2 \<le> length entries"
    and "areas (zone (sort_key time entries ! 0)) = None
         \<or> areas (zone (sort_key time entries ! 1)) = None"
  shows "(areas (zone (sort_key time entries ! 0)) = None \<longrightarrow>
            processTzOnlineData areas data
              = Inl (AreaInfoNotFoundCurrent (zone (sort_key time entries ! 0))))
         \<and> (areas (zone (sort_key time entries ! 0)) \<noteq> None \<longrightarrow>
            processTzOnlineData areas data
              = Inl (AreaInfoNotFoundNext (zone (sort_key time entries ! 1))))
         \<and> (\<forall>s. processTzOnlineData areas data \<noteq> Inr s)"
  unfolding processTzOnlineData_array [OF assms(1,2)] using assms(3)
  by (cases "areas (zone (sort_key time entries ! 0))";
      cases "areas (zone (sort_key time entries ! 1))") simp_all

theorem C7_area_not_found_witness:
  "processTzOnlineData [1 \<mapsto> \<lparr>name = ascii ''A'', tier = ascii ''X''\<rparr>]
     (JSObject [(ascii ''data'', JSArray [\<lparr>zone = 1, time = 200\<rparr>, \<lparr>zone = 2, time = 100\<rparr>])])
   = Inl (AreaInfoNotFoundCurrent 2)
   \<and> processTzOnlineData [2 \<mapsto> \<lparr>name = ascii ''B'', tier = ascii ''Y''\<rparr>]
     (JSObject [(ascii ''data'', JSArray [\<lparr>zone = 1, time = 200\<rparr>, \<lparr>zone = 2, time = 100\<rparr>])])
   = Inl (AreaInfoNotFoundNext 1)"
  using C7_area_not_found [of "JSObject [(ascii ''data'', JSArray [\<lparr>zone = 1, time = 200\<rparr>, \<lparr>zone = 2, time = 100\<rparr>])]"
      "[\<lparr>zone = 1, time = 200\<rparr>, \<lparr>zone = 2, time = 100\<rparr>]"
      "[1 \<mapsto> \<lparr>name = ascii ''A'', tier = ascii ''X''\<rparr>]"]
    C7_area_not_found [of "JSObject [(ascii ''data'', JSArray [\<lparr>zone = 1, time = 200\<rparr>, \<lparr>zone = 2, time = 100\<rparr>])]"
      "[\<lparr>zone = 1, time = 200\<rparr>, \<lparr>zone = 2, time = 100\<rparr>]"
      "[2 \<mapsto> \<lparr>name = ascii ''B'', tier = ascii ''Y''\<rparr>]"]
  by (simp add: example_sorted)

section \<open>The rotation fetcher: when the cache is used\<close>

lemma fs1_eq:
  "(if \<not> cacheDirExists x then x\<lparr>cacheDirExists := True\<rparr> else x) = x\<lparr>cacheDirExists := True\<rparr>"
  by simp

text \<open>
  Claim C1, as stated, fails on the code in its last part: the cache file does not receive
  the response body. The body is parsed first; if it is not JSON the call throws and
  nothing is written, and otherwise what is written is the parsed value serialized again
  with an indentation of two spaces. On the compact text of the example the file receives
  the indented text; on the text that is not JSON the file keeps its old content.
\<close>

theorem C1_response_body_counterexample:
  "cacheFile (fst (snd (fetchTzOnline example_parse example_stringify None
       (example_world 1700002200000 EXAMPLE_COMPACT))))
     = Some \<lparr>mtime = example_time 1700002200500, content = EXAMPLE_INDENTED\<rparr>
   \<and> EXAMPLE_INDENTED \<noteq> EXAMPLE_COMPACT
   \<and> fst (fetchTzOnline example_parse example_stringify None
       (example_world 1700002200000 EXAMPLE_NOT_JSON)) = Inl JsonSyntaxError
   \<and> cacheFile (fst (snd (fetchTzOnline example_parse example_stringify None
       (example_world 1700002200000 EXAMPLE_NOT_JSON))))
     = Some \<lparr>mtime = example_time 1700000000000, content = EXAMPLE_INDENTED\<rparr>"
  by (simp add: fetchTzOnline_def ok_def ascii_def)

text \<open>
  Claim C1, amended. Let the cache file exist, last written at \<open>mtime f\<close>, and let the
  call read the clock \<open>now w\<close>. If the two times have the same hour, day, month and year
  and are less than 30 minutes apart, the function returns what \<^verbatim>\<open>JSON.parse\<close> gives
  on the content of the file, requests nothing and leaves the file as it is. Otherwise it
  requests the URL once; on a response with a status from 200 to 299 whose body parses, it
  returns the parsed body and writes \<^verbatim>\<open>JSON.stringify(data, null, 2)\<close> of it to the
  cache file, and on such a response whose body does not parse it fails with the error of
  the parser and leaves the file as it is.
\<close>

theorem C1_cache_validity_amended:
  assumes "cacheFile (fs w) = Some f"
  shows "(getHours (now w) = getHours (mtime f) \<and> getDate (now w) = getDate (mtime f)
            \<and> getMonth (now w) = getMonth (mtime f)
            \<and> getFullYear (now w) = getFullYear (mtime f)
            \<and> getTime (now w) - getTime (mtime f) < 30 * 60 * 1000
          \<longrightarrow> fst (fetchTzOnline JSON_parse JSON_stringify config w)
                = (case JSON_parse (content f) of None \<Rightarrow> Inl JsonSyntaxError | Some v \<Rightarrow> Inr v)
              \<and> snd (snd (fetchTzOnline JSON_parse JSON_stringify config w)) = []
              \<and> cacheFile (fst (snd (fetchTzOnline JSON_parse JSON_stringify config w))) = Some f)
       \<and> (\<not> (getHours (now w) = getHours (mtime f) \<and> getDate (now w) = getDate (mtime f)
               \<and> getMonth (now w) = getMonth (mtime f)
               \<and> getFullYear (now w) = getFullYear (mtime f)
               \<and> getTime (now w) - getTime (mtime f) < 30 * 60 * 1000)
          \<longrightarrow> snd (snd (fetchTzOnline JSON_parse JSON_stringify config w)) = [requestUrl config]
              \<and> (\<forall>response data.
                     network w (requestUrl config) = Resolved response \<and> ok response
                     \<and> JSON_parse (body response) = Some data
                     \<longrightarrow> fst (fetchTzOnline JSON_parse JSON_stringify config w) = Inr data
                       \<and> cacheFile (fst (snd (fetchTzOnline JSON_parse JSON_stringify config w)))
                           = Some \<lparr>mtime = writeClock w, content = JSON_stringify data\<rparr>)
              \<and> (\<forall>response.
                     network w (requestUrl config) = Resolved response \<and> ok response
                     \<and> JSON_parse (body response) = None
                     \<longrightarrow> fst (fetchTzOnline JSON_parse JSON_stringify config w) = Inl JsonSyntaxError
                       \<and> cacheFile (fst (snd (fetchTzOnline JSON_parse JSON_stringify config w)))
                           = Some f))"
proof (intro conjI impI)
  assume hit: "getHours (now w) = getHours (mtime f) \<and> getDate (now w) = getDate (mtime f)
            \<and> getMonth (now w) = getMonth (mtime f)
            \<and> getFullYear (now w) = getFullYear (mtime f)
            \<and> getTime (now w) - getTime (mtime f) < 30 * 60 * 1000"
  have r: "fetchTzOnline JSON_parse JSON_stringify config w =
      (case JSON_parse (content f) of
         None \<Rightarrow> (Inl JsonSyntaxError, (fs w)\<lparr>cacheDirExists := True\<rparr>, [])
       | Some v \<Rightarrow> (Inr v, (fs w)\<lparr>cacheDirExists := True\<rparr>, []))"
    unfolding fetchTzOnline_def fs1_eq Let_def using assms hit by simp
  show "fst (fetchTzOnline JSON_parse JSON_stringify config w)
          = (case JSON_parse (content f) of None \<Rightarrow> Inl JsonSyntaxError | Some v \<Rightarrow> Inr v)"
    unfolding r by (simp split: option.split)
  show "snd (snd (fetchTzOnline JSON_parse JSON_stringify config w)) = []"
    unfolding r by (simp split: option.split)
  show "cacheFile (fst (snd (fetchTzOnline JSON_parse JSON_stringify config w))) = Some f"
    unfolding r using assms by (simp split: option.split)
next
  assume miss: "\<not> (getHours (now w) = getHours (mtime f) \<and> getDate (now w) = getDate (mtime f)
               \<and> getMonth (now w) = getMonth (mtime f)
               \<and> getFullYear (now w) = getFullYear (mtime f)
               \<and> getTime (now w) - getTime (mtime f) < 30 * 60 * 1000)"
  have r: "fetchTzOnline JSON_parse JSON_stringify config w =
      (case network w (requestUrl config) of
         Rejected m \<Rightarrow> (Inl (FetchRejected m), (fs w)\<lparr>cacheDirExists := True\<rparr>, [requestUrl config])
       | Resolved response \<Rightarrow>
           if \<not> ok response
           then (Inl (HttpError (status response)), (fs w)\<lparr>cacheDirExists := True\<rparr>, [requestUrl config])
           else
             (case JSON_parse (body response) of
                None \<Rightarrow> (Inl JsonSyntaxError, (fs w)\<lparr>cacheDirExists := True\<rparr>, [requestUrl config])
              | Some data \<Rightarrow>
                  (Inr data,
                   (fs w)\<lparr>cacheDirExists := True,
                          cacheFile := Some \<lparr>mtime = writeClock w, content = JSON_stringify data\<rparr>\<rparr>,
                   [requestUrl config])))"
    unfolding fetchTzOnline_def fs1_eq Let_def using assms miss by auto
  show "snd (snd (fetchTzOnline JSON_parse JSON_stringify config w)) = [requestUrl config]"
    unfolding r by (simp split: FetchOutcome.split option.split)
  show "\<forall>response data.
          network w (requestUrl config) = Resolved response \<and> ok response
          \<and> JSON_parse (body response) = Some data
          \<longrightarrow> fst (fetchTzOnline JSON_parse JSON_stringify config w) = Inr data
            \<and> cacheFile (fst (snd (fetchTzOnline JSON_parse JSON_stringify config w)))
                = Some \<lparr>mtime = writeClock w, content = JSON_stringify data\<rparr>"
    unfolding r by simp
  show "\<forall>response.
          network w (requestUrl config) = Resolved response \<and> ok response
          \<and> JSON_parse (body response) = None
          \<longrightarrow> fst (fetchTzOnline JSON_parse JSON_stringify config w) = Inl JsonSyntaxError
            \<and> cacheFile (fst (snd (fetchTzOnline JSON_parse JSON_stringify config w))) = Some f"
    unfolding r using assms by simp
qed

theorem C1_cache_validity_amended_witness:
  "fetchTzOnline example_parse example_stringify None
       (example_world 1700000600000 EXAMPLE_COMPACT)
     = (Inr EXAMPLE_VALUE,
        \<lparr>cacheDirExists = True,
         cacheFile = Some \<lparr>mtime = example_time 1700000000000, content = EXAMPLE_INDENTED\<rparr>\<rparr>,
        [])
   \<and> fetchTzOnline example_parse example_stringify None
       (example_world 1700002200000 EXAMPLE_COMPACT)
     = (Inr EXAMPLE_VALUE,
        \<lparr>cacheDirExists = True,
         cacheFile = Some \<lparr>mtime = example_time 1700002200500, content = EXAMPLE_INDENTED\<rparr>\<rparr>,
        [ascii ''https://api.d2-trade.com/api/query/tz_online''])
   \<and> fetchTzOnline example_parse example_stringify None
       (example_world 1700002200000 EXAMPLE_NOT_JSON)
     = (Inl JsonSyntaxError,
        \<lparr>cacheDirExists = True,
         cacheFile = Some \<lparr>mtime = example_time 1700000000000, content = EXAMPLE_INDENTED\<rparr>\<rparr>,
        [ascii ''https://api.d2-trade.com/api/query/tz_online''])"
proof -
  let ?f = "\<lparr>mtime = example_time 1700000000000, content = EXAMPLE_INDENTED\<rparr>"
  let ?w1 = "example_world 1700000600000 EXAMPLE_COMPACT"
  let ?w2 = "example_world 1700002200000 EXAMPLE_COMPACT"
  let ?w3 = "example_world 1700002200000 EXAMPLE_NOT_JSON"
  have hit: "fst (fetchTzOnline example_parse example_stringify None ?w1) = Inr EXAMPLE_VALUE
    \<and> snd (snd (fetchTzOnline example_parse example_stringify None ?w1)) = []
    \<and> cacheFile (fst (snd (fetchTzOnline example_parse example_stringify None ?w1))) = Some ?f"
    using C1_cache_validity_amended [where w = ?w1 and f = ?f and JSON_parse = example_parse
        and JSON_stringify = example_stringify and config = None]
    by simp
  have miss: "snd (snd (fetchTzOnline example_parse example_stringify None ?w2))
        = [requestUrl None]
    \<and> fst (fetchTzOnline example_parse example_stringify None ?w2) = Inr EXAMPLE_VALUE
    \<and> cacheFile (fst (snd (fetchTzOnline example_parse example_stringify None ?w2)))
        = Some \<lparr>mtime = example_time 1700002200500, content = EXAMPLE_INDENTED\<rparr>"
    using C1_cache_validity_amended [where w = ?w2 and f = ?f and JSON_parse = example_parse
        and JSON_stringify = example_stringify and config = None]
    by (simp add: ok_def)
  have bad: "snd (snd (fetchTzOnline example_parse example_stringify None ?w3))
        = [requestUrl None]
    \<and> fst (fetchTzOnline example_parse example_stringify None ?w3) = Inl JsonSyntaxError
    \<and> cacheFile (fst (snd (fetchTzOnline example_parse example_stringify None ?w3))) = Some ?f"
    using C1_cache_validity_amended [where w = ?w3 and f = ?f and JSON_parse = example_parse
        and JSON_stringify = example_stringify and config = None]
    by (simp add: ok_def ascii_def)
  have dir1: "cacheDirExists (fst (snd (fetchTzOnline example_parse example_stringify None ?w1)))"
    by (simp add: fetchTzOnline_def)
  have dir2: "cacheDirExists (fst (snd (fetchTzOnline example_parse example_stringify None ?w2)))"
    by (simp add: fetchTzOnline_def ok_def)
  have dir3: "cacheDirExists (fst (snd (fetchTzOnline example_parse example_stringify None ?w3)))"
    by (simp add: fetchTzOnline_def ok_def ascii_def)
  show ?thesis
    using hit miss bad dir1 dir2 dir3
    by (simp add: prod_eq_iff requestUrl_def FileSystem.equality)
qed

section \<open>The two calls: mock mode and failures\<close>

text \<open>
  Claim C9. With \<^const>\<open>mockMode\<close> set, \<^const>\<open>recognizeImage\<close> and \<^const>\<open>analyzeItem\<close>
  send no request and return the success result with the fixed text and the fixed analysis,
  whatever the network, the image URL and the text are.
\<close>

theorem C9_mock_mode:
  assumes "mockMode config"
  shows "recognizeImage config net imageUrl
           = (\<lparr>success = True, resultText = Some MOCK_OCR_TEXT, analysis = None, error = None\<rparr>, [])
         \<and> analyzeItem system_prompt itemAnalysisPrompt config net ocr
           = (\<lparr>success = True, resultText = None, analysis = Some MOCK_ANALYSIS, error = None\<rparr>, [])
         \<and> recognizeImage config net imageUrl = recognizeImage config net' imageUrl'
         \<and> analyzeItem system_prompt itemAnalysisPrompt config net ocr
           = analyzeItem system_prompt itemAnalysisPrompt config net' ocr'"
  using assms by (simp add: recognizeImage_def analyzeItem_def)

theorem C9_mock_mode_witness:
  "recognizeImage
     \<lparr>apiUrl = None, ocrApiUrl = ascii ''https://ocr'', ocrApiKey = ascii ''k1'',
      aiApiUrl = ascii ''https://ai'', aiApiKey = ascii ''k2'', aiModel = ascii ''qwen-plus'',
      mockMode = True, testMode = False\<rparr>
     (\<lambda>request. Rejected (ascii ''offline'')) (ascii ''https://img/1.png'')
   = (\<lparr>success = True, resultText = Some MOCK_OCR_TEXT, analysis = None, error = None\<rparr>, [])
   \<and> analyzeItem (ascii ''system'') (\<lambda>t. t)
     \<lparr>apiUrl = None, ocrApiUrl = ascii ''https://ocr'', ocrApiKey = ascii ''k1'',
      aiApiUrl = ascii ''https://ai'', aiApiKey = ascii ''k2'', aiModel = ascii ''qwen-plus'',
      mockMode = True, testMode = False\<rparr>
     (\<lambda>request. Rejected (ascii ''offline'')) (ascii ''Requires Level 30'')
   = (\<lparr>success = True, resultText = None, analysis = Some MOCK_ANALYSIS, error = None\<rparr>, [])"
  using C9_mock_mode [where config = "\<lparr>apiUrl = None, ocrApiUrl = ascii ''https://ocr'', ocrApiKey = ascii ''k1'',
      aiApiUrl = ascii ''https://ai'', aiApiKey = ascii ''k2'', aiModel = ascii ''qwen-plus'',
      mockMode = True, testMode = False\<rparr>"
      and net = "\<lambda>request. Rejected (ascii ''offline'')" and imageUrl = "ascii ''https://img/1.png''"
      and system_prompt = "ascii ''system''" and itemAnalysisPrompt = "\<lambda>t. t"
      and ocr = "ascii ''Requires Level 30''"]
  by simp

lemma OCR_ERROR_nonempty: "OCR_ERROR \<noteq> []"
  by (simp add: OCR_ERROR_def ascii_def)

lemma OCR_REQUEST_FAILED_nonempty: "OCR_REQUEST_FAILED \<noteq> []"
  by (simp add: OCR_REQUEST_FAILED_def ascii_def)

lemma AI_ERROR_nonempty: "AI_ERROR \<noteq> []"
  by (simp add: AI_ERROR_def ascii_def)

lemma AI_REQUEST_FAILED_nonempty: "AI_REQUEST_FAILED \<noteq> []"
  by (simp add: AI_REQUEST_FAILED_def ascii_def)

lemma recognizeImage_failure:
  assumes "\<not> mockMode config"
    and "\<forall>r. net (OcrRequest (ocrApiUrl config) (ocrApiKey config) u) = Resolved r \<longrightarrow> \<not> ok r"
  shows "\<exists>e. e \<noteq> [] \<and> fst (recognizeImage config net u)
           = \<lparr>success = False, resultText = None, analysis = None, error = Some e\<rparr>"
proof (cases "net (OcrRequest (ocrApiUrl config) (ocrApiKey config) u)")
  case (Rejected m)
  then show ?thesis using assms(1)
    by (simp add: recognizeImage_def OCR_ERROR_nonempty)
next
  case (Resolved r)
  then have "\<not> ok r" using assms(2) by simp
  then show ?thesis using assms(1) Resolved
    by (simp add: recognizeImage_def OCR_REQUEST_FAILED_nonempty)
qed

lemma analyzeItem_failure:
  assumes "\<not> mockMode config"
    and "\<forall>r. net (AiRequest (aiApiUrl config) (aiApiKey config) (aiModel config) sp
                  (ip (preprocessOcrText t))) = Resolved r \<longrightarrow> \<not> ok r"
  shows "\<exists>e. e \<noteq> [] \<and> fst (analyzeItem sp ip config net t)
           = \<lparr>success = False, resultText = None, analysis = None, error = Some e\<rparr>"
proof (cases "net (AiRequest (aiApiUrl config) (aiApiKey config) (aiModel config) sp
                  (ip (preprocessOcrText t)))")
  case (Rejected m)
  then show ?thesis using assms(1)
    by (simp add: analyzeItem_def AI_ERROR_nonempty)
next
  case (Resolved r)
  then have "\<not> ok r" using assms(2) by simp
  then show ?thesis using assms(1) Resolved
    by (simp add: analyzeItem_def AI_REQUEST_FAILED_nonempty)
qed

lemma itemAction_ocr_failure:
  assumes "\<not> testMode config" and "u \<noteq> []"
    and "fst (recognizeImage config net u)
           = \<lparr>success = False, resultText = None, analysis = None, error = Some e\<rparr>"
  shows "fst (itemAction sp ip config net imageArg (Some u) promptSrc)
           = Returns (Some (MSG_OCR_FAILED @ e))"
proof -
  obtain r s where rs: "recognizeImage config net u = (r, s)" by (cases "recognizeImage config net u")
  then show ?thesis using assms by (simp add: itemAction_def interpolate_def)
qed

lemma itemAction_test_failure:
  assumes "testMode config" and "t \<noteq> []"
    and "fst (analyzeItem sp ip config net t)
           = \<lparr>success = False, resultText = None, analysis = None, error = Some e\<rparr>"
  shows "fst (itemAction sp ip config net (Some t) src promptSrc)
           = Returns (Some (MSG_VALUE_FAILED @ e))"
proof -
  obtain r s where rs: "analyzeItem sp ip config net t = (r, s)" by (cases "analyzeItem sp ip config net t")
  then show ?thesis using assms by (simp add: itemAction_def interpolate_def)
qed

lemma itemAction_ai_failure:
  assumes "\<not> testMode config" and "u \<noteq> []"
    and "fst (recognizeImage config net u)
           = \<lparr>success = True, resultText = Some t, analysis = None, error = None\<rparr>"
    and "fst (analyzeItem sp ip config net t)
           = \<lparr>success = False, resultText = None, analysis = None, error = Some e\<rparr>"
  shows "fst (itemAction sp ip config net imageArg (Some u) promptSrc)
           = Returns (Some (MSG_VALUE_FAILED @ e))"
proof -
  obtain r s where rs: "recognizeImage config net u = (r, s)" by (cases "recognizeImage config net u")
  obtain r' s' where rs': "analyzeItem sp ip config net t = (r', s')" by (cases "analyzeItem sp ip config net t")
  show ?thesis using assms rs rs' by (simp add: itemAction_def interpolate_def)
qed

text \<open>
  Claim C8. With \<^const>\<open>mockMode\<close> off: if the OCR request is rejected or answered with a
  status outside 200 to 299, \<^const>\<open>recognizeImage\<close> returns a result with
  \<open>success = False\<close> and a non-empty error message, and the action replies with the
  recognition-failed prefix and that message. Likewise, if the AI request fails,
  \<^const>\<open>analyzeItem\<close> returns such a result, and the action replies with the
  analysis-failed prefix and the message, in test mode as after a successful recognition.
\<close>

theorem C8_failures_reported:
  assumes "\<not> mockMode config"
  shows "((\<forall>r. net (OcrRequest (ocrApiUrl config) (ocrApiKey config) u) = Resolved r \<longrightarrow> \<not> ok r)
          \<longrightarrow> (\<exists>e. e \<noteq> []
                \<and> fst (recognizeImage config net u)
                    = \<lparr>success = False, resultText = None, analysis = None, error = Some e\<rparr>
                \<and> (\<not> testMode config \<and> u \<noteq> []
                    \<longrightarrow> fst (itemAction sp ip config net imageArg (Some u) promptSrc)
                          = Returns (Some (MSG_OCR_FAILED @ e)))))
       \<and> ((\<forall>r. net (AiRequest (aiApiUrl config) (aiApiKey config) (aiModel config) sp
                       (ip (preprocessOcrText t))) = Resolved r \<longrightarrow> \<not> ok r)
          \<longrightarrow> (\<exists>e. e \<noteq> []
                \<and> fst (analyzeItem sp ip config net t)
                    = \<lparr>success = False, resultText = None, analysis = None, error = Some e\<rparr>
                \<and> (testMode config \<and> t \<noteq> []
                    \<longrightarrow> fst (itemAction sp ip config net (Some t) src promptSrc)
                          = Returns (Some (MSG_VALUE_FAILED @ e)))
                \<and> (\<not> testMode config \<and> u \<noteq> []
                    \<and> fst (recognizeImage config net u)
                        = \<lparr>success = True, resultText = Some t, analysis = None, error = None\<rparr>
                    \<longrightarrow> fst (itemAction sp ip config net imageArg (Some u) promptSrc)
                          = Returns (Some (MSG_VALUE_FAILED @ e)))))"
proof (intro conjI impI)
  assume "\<forall>r. net (OcrRequest (ocrApiUrl config) (ocrApiKey config) u) = Resolved r \<longrightarrow> \<not> ok r"
  then obtain e where e: "e \<noteq> []"
    "fst (recognizeImage config net u)
       = \<lparr>success = False, resultText = None, analysis = None, error = Some e\<rparr>"
    using recognizeImage_failure [OF assms, of net u] by auto
  then show "\<exists>e. e \<noteq> []
      \<and> fst (recognizeImage config net u)
          = \<lparr>success = False, resultText = None, analysis = None, error = Some e\<rparr>
      \<and> (\<not> testMode config \<and> u \<noteq> []
          \<longrightarrow> fst (itemAction sp ip config net imageArg (Some u) promptSrc)
                = Returns (Some (MSG_OCR_FAILED @ e)))"
    using itemAction_ocr_failure [of config u net e sp ip imageArg promptSrc] by (intro exI [of _ e]) simp
next
  assume "\<forall>r. net (AiRequest (aiApiUrl config) (aiApiKey config) (aiModel config) sp
                       (ip (preprocessOcrText t))) = Resolved r \<longrightarrow> \<not> ok r"
  then obtain e where e: "e \<noteq> []"
    "fst (analyzeItem sp ip config net t)
       = \<lparr>success = False, resultText = None, analysis = None, error = Some e\<rparr>"
    using analyzeItem_failure [OF assms, of net sp ip t] by auto
  then show "\<exists>e. e \<noteq> []
      \<and> fst (analyzeItem sp ip config net t)
          = \<lparr>success = False, resultText = None, analysis = None, error = Some e\<rparr>
      \<and> (testMode config \<and> t \<noteq> []
          \<longrightarrow> fst (itemAction sp ip config net (Some t) src promptSrc)
                = Returns (Some (MSG_VALUE_FAILED @ e)))
      \<and> (\<not> testMode config \<and> u \<noteq> []
          \<and> fst (recognizeImage config net u)
              = \<lparr>success = True, resultText = Some t, analysis = None, error = None\<rparr>
          \<longrightarrow> fst (itemAction sp ip config net imageArg (Some u) promptSrc)
                = Returns (Some (MSG_VALUE_FAILED @ e)))"
    using itemAction_test_failure [of config t sp ip net e src promptSrc]
      itemAction_ai_failure [of config u net t sp ip e imageArg promptSrc]
    by (intro exI [of _ e]) simp
qed

theorem C8_failures_reported_witness:
  "fst (itemAction (ascii ''system'') (\<lambda>t. t)
      \<lparr>apiUrl = None, ocrApiUrl = ascii ''https://ocr'', ocrApiKey = ascii ''k1'',
       aiApiUrl = ascii ''https://ai'', aiApiKey = ascii ''k2'', aiModel = ascii ''qwen-plus'',
       mockMode = False, testMode = False\<rparr>
      (\<lambda>request. Rejected (ascii ''fetch failed''))
      None (Some (ascii ''https://img/1.png'')) None)
   = Returns (Some (MSG_OCR_FAILED @ OCR_ERROR @ ascii ''fetch failed''))
   \<and> fst (itemAction (ascii ''system'') (\<lambda>t. t)
      \<lparr>apiUrl = None, ocrApiUrl = ascii ''https://ocr'', ocrApiKey = ascii ''k1'',
       aiApiUrl = ascii ''https://ai'', aiApiKey = ascii ''k2'', aiModel = ascii ''qwen-plus'',
       mockMode = False, testMode = True\<rparr>
      (\<lambda>request. Resolved \<lparr>status = 500, statusText = ascii ''Internal Server Error'',
                               body = Content None\<rparr>)
      (Some (ascii ''Requires Level 30'')) None None)
   = Returns (Some (MSG_VALUE_FAILED @ AI_REQUEST_FAILED @ ascii ''500 Internal Server Error''))
   \<and> fst (itemAction (ascii ''system'') (\<lambda>t. t)
      \<lparr>apiUrl = None, ocrApiUrl = ascii ''https://ocr'', ocrApiKey = ascii ''k1'',
       aiApiUrl = ascii ''https://ai'', aiApiKey = ascii ''k2'', aiModel = ascii ''qwen-plus'',
       mockMode = False, testMode = False\<rparr>
      (\<lambda>request. case request of
          OcrRequest url key img \<Rightarrow>
            Resolved \<lparr>status = 200, statusText = ascii ''OK'',
                      body = Content (Some (ascii ''Requires Level 30''))\<rparr>
        | AiRequest url key model sys usr \<Rightarrow> Rejected (ascii ''fetch failed''))
      None (Some (ascii ''https://img/1.png'')) None)
   = Returns (Some (MSG_VALUE_FAILED @ AI_ERROR @ ascii ''fetch failed''))"
proof (intro conjI)
  let ?sp = "ascii ''system''"
  let ?ip = "\<lambda>t::jsstring. t"
  let ?u = "ascii ''https://img/1.png''"
  let ?t = "ascii ''Requires Level 30''"
  let ?cfg = "\<lparr>apiUrl = None, ocrApiUrl = ascii ''https://ocr'', ocrApiKey = ascii ''k1'',
       aiApiUrl = ascii ''https://ai'', aiApiKey = ascii ''k2'', aiModel = ascii ''qwen-plus'',
       mockMode = False, testMode = False\<rparr>"
  let ?cfgT = "\<lparr>apiUrl = None, ocrApiUrl = ascii ''https://ocr'', ocrApiKey = ascii ''k1'',
       aiApiUrl = ascii ''https://ai'', aiApiKey = ascii ''k2'', aiModel = ascii ''qwen-plus'',
       mockMode = False, testMode = True\<rparr>"
  let ?netA = "\<lambda>request::ChatRequest. (Rejected (ascii ''fetch failed'') :: ChatBody FetchOutcome)"
  let ?netB = "\<lambda>request::ChatRequest. Resolved \<lparr>status = 500, statusText = ascii ''Internal Server Error'',
                               body = Content None\<rparr>"
  let ?netC = "\<lambda>request. case request of
          OcrRequest url key img \<Rightarrow>
            Resolved \<lparr>status = 200, statusText = ascii ''OK'',
                      body = Content (Some (ascii ''Requires Level 30''))\<rparr>
        | AiRequest url key model sys usr \<Rightarrow> Rejected (ascii ''fetch failed'')"
  have u: "?u \<noteq> []" and t: "?t \<noteq> []" by (simp_all add: ascii_def)
  have rA: "fst (recognizeImage ?cfg ?netA ?u)
      = \<lparr>success = False, resultText = None, analysis = None,
         error = Some (OCR_ERROR @ ascii ''fetch failed'')\<rparr>"
    by (simp add: recognizeImage_def)
  show "fst (itemAction ?sp ?ip ?cfg ?netA None (Some ?u) None)
      = Returns (Some (MSG_OCR_FAILED @ OCR_ERROR @ ascii ''fetch failed''))"
    using C8_failures_reported [where config = ?cfg and net = ?netA and u = ?u and sp = ?sp
        and ip = ?ip and imageArg = None and promptSrc = None, THEN conjunct1] u
    unfolding rA by auto
  have d: "decimal 500 = ascii ''500''" by (simp add: decimal.simps ascii_def)
  have rB: "fst (analyzeItem ?sp ?ip ?cfgT ?netB ?t)
      = \<lparr>success = False, resultText = None, analysis = None,
         error = Some (AI_REQUEST_FAILED @ ascii ''500 Internal Server Error'')\<rparr>"
    by (simp add: analyzeItem_def ok_def d) (simp add: ascii_def)
  show "fst (itemAction ?sp ?ip ?cfgT ?netB (Some ?t) None None)
      = Returns (Some (MSG_VALUE_FAILED @ AI_REQUEST_FAILED @ ascii ''500 Internal Server Error''))"
    using C8_failures_reported [where config = ?cfgT and net = ?netB and t = ?t and sp = ?sp
        and ip = ?ip and src = None and promptSrc = None, THEN conjunct2] t
    unfolding rB by (auto simp: ok_def)
  have rC: "fst (recognizeImage ?cfg ?netC ?u)
      = \<lparr>success = True, resultText = Some ?t, analysis = None, error = None\<rparr>"
    using t by (simp add: recognizeImage_def ok_def)
  have aC: "fst (analyzeItem ?sp ?ip ?cfg ?netC ?t)
      = \<lparr>success = False, resultText = None, analysis = None,
         error = Some (AI_ERROR @ ascii ''fetch failed'')\<rparr>"
    by (simp add: analyzeItem_def)
  show "fst (itemAction ?sp ?ip ?cfg ?netC None (Some ?u) None)
      = Returns (Some (MSG_VALUE_FAILED @ AI_ERROR @ ascii ''fetch failed''))"
    using C8_failures_reported [where config = ?cfg and net = ?netC and t = ?t and u = ?u
        and sp = ?sp and ip = ?ip and imageArg = None and promptSrc = None, THEN conjunct2] u
    unfolding rC aC by auto
qed

section \<open>The preprocessor is idempotent\<close>

subsection \<open>Global replacement\<close>

lemma noMatch_appendD2: "noMatch re (xs @ ys) \<Longrightarrow> noMatch re ys"
  by (induction xs) simp_all

lemma noMatch_drop: "noMatch re s \<Longrightarrow> noMatch re (drop n s)"
  using noMatch_appendD2 [of re "take n s" "drop n s"] by simp

lemma noMatch_appendD1:
  assumes mono: "\<And>t u. re t \<noteq> None \<Longrightarrow> re (t @ u) \<noteq> None"
  shows "noMatch re (xs @ ys) \<Longrightarrow> noMatch re xs"
proof (induction xs)
  case Nil
  then show ?case by simp
next
  case (Cons c xs)
  then have whole: "re ((c # xs) @ ys) = None" and "noMatch re (xs @ ys)" by simp_all
  then have "noMatch re xs" using Cons.IH by simp
  moreover have "re (c # xs) = None"
  proof (rule ccontr)
    assume "re (c # xs) \<noteq> None"
    then have "re ((c # xs) @ ys) \<noteq> None" by (rule mono)
    then show False using whole by simp
  qed
  ultimately show ?case by simp
qed

lemma replaceAll_id: "noMatch re s \<Longrightarrow> replaceAll re rep s = s"
  by (induction s) simp_all

lemma set_replaceAll: "set (replaceAll re rep s) \<subseteq> set s \<union> set rep"
proof (induction re rep s rule: replaceAll.induct)
  case (1 re rep)
  then show ?case by simp
next
  case (2 re rep c cs)
  show ?case
  proof (cases "re (c # cs)")
    case None
    then show ?thesis using 2(1) by auto
  next
    case (Some n)
    have "set (drop (n - 1) cs) \<subseteq> set cs" by (rule set_drop_subset)
    then show ?thesis using 2(2) [OF Some] Some by auto
  qed
qed

lemma replaceAll_skip:
  assumes "\<And>c cs. c \<in> set p \<Longrightarrow> re (c # cs) = None"
  shows "replaceAll re rep (p @ s) = p @ replaceAll re rep s"
  using assms by (induction p) simp_all

lemma replaceAll_noMatch:
  assumes stable: "\<And>c cs. re (c # cs) = None \<Longrightarrow> re (c # replaceAll re rep cs) = None"
    and after: "\<And>c cs n. re (c # cs) = Some n \<Longrightarrow>
                  rep = [] \<or> (\<exists>r. rep = [r] \<and> re (r # drop (n - 1) cs) = None)"
  shows "noMatch re (replaceAll re rep s)"
proof (induction "length s" arbitrary: s rule: less_induct)
  case less
  show ?case
  proof (cases s)
    case Nil
    then show ?thesis by simp
  next
    case (Cons c cs)
    show ?thesis
    proof (cases "re (c # cs)")
      case None
      have "noMatch re (replaceAll re rep cs)" using less [of cs] Cons by simp
      then show ?thesis using None Cons stable [OF None] by simp
    next
      case (Some n)
      have ih: "noMatch re (replaceAll re rep (drop (n - 1) cs))"
        using less [of "drop (n - 1) cs"] Cons by simp
      from after [OF Some] show ?thesis
      proof
        assume "rep = []"
        then show ?thesis using Some ih Cons by simp
      next
        assume "\<exists>r. rep = [r] \<and> re (r # drop (n - 1) cs) = None"
        then obtain r where r: "rep = [r]" "re (r # drop (n - 1) cs) = None" by blast
        from stable [OF r(2)] have "re (r # replaceAll re rep (drop (n - 1) cs)) = None" .
        then show ?thesis using Some ih r Cons by simp
      qed
    qed
  qed
qed

lemma replaceAll_preserves:
  assumes head: "\<And>c cs. re' (c # cs) = None \<Longrightarrow> noMatch re' cs
                   \<Longrightarrow> re' (c # replaceAll re rep cs) = None"
    and rep: "rep = [] \<or> (\<exists>r. rep = [r] \<and> (\<forall>cs. re' (r # cs) = None))"
  shows "noMatch re' s \<Longrightarrow> noMatch re' (replaceAll re rep s)"
proof (induction "length s" arbitrary: s rule: less_induct)
  case less
  show ?case
  proof (cases s)
    case Nil
    then show ?thesis by simp
  next
    case (Cons c cs)
    from less.prems Cons have here: "re' (c # cs) = None" and rest: "noMatch re' cs" by simp_all
    show ?thesis
    proof (cases "re (c # cs)")
      case None
      have "noMatch re' (replaceAll re rep cs)" using less.hyps [of cs] Cons rest by simp
      moreover have "re' (c # replaceAll re rep cs) = None" using here rest by (rule head)
      ultimately show ?thesis using None Cons by simp
    next
      case (Some n)
      have "noMatch re' (drop (n - 1) cs)" using rest by (rule noMatch_drop)
      then have ih: "noMatch re' (replaceAll re rep (drop (n - 1) cs))"
        using less.hyps [of "drop (n - 1) cs"] Cons by simp
      from rep show ?thesis
      proof
        assume "rep = []"
        then show ?thesis using Some ih Cons by simp
      next
        assume "\<exists>r. rep = [r] \<and> (\<forall>cs. re' (r # cs) = None)"
        then obtain r where "rep = [r]" "\<forall>cs. re' (r # cs) = None" by blast
        then show ?thesis using Some ih Cons by simp
      qed
    qed
  qed
qed

lemma noMatch_cut:
  assumes cut: "\<And>x y z. x \<noteq> [] \<Longrightarrow> re (x @ NL # y @ NL # z) = None \<Longrightarrow> re (x @ NL # z) = None"
  shows "noMatch re (a @ NL # m @ NL # b) \<Longrightarrow> noMatch re (a @ NL # b)"
proof (induction a)
  case Nil
  then have "noMatch re (([NL] @ m) @ NL # b)" by simp
  then show ?case unfolding append_Nil by (rule noMatch_appendD2)
next
  case (Cons c a)
  then have "re ((c # a) @ NL # m @ NL # b) = None" and "noMatch re (a @ NL # m @ NL # b)"
    by simp_all
  then show ?case using cut [of "c # a" m b] Cons.IH by simp
qed

subsection \<open>When the patterns do not match\<close>

lemma startsWith_prefix: "startsWith s p \<longleftrightarrow> prefix p s"
proof
  assume "startsWith s p"
  then have "s = p @ drop (length p) s"
    unfolding startsWith_def using append_take_drop_id [of "length p" s] by simp
  then show "prefix p s" unfolding prefix_def by blast
next
  assume "prefix p s"
  then show "startsWith s p" by (auto simp: startsWith_def prefix_def)
qed

lemma re_bracket_None:
  "re_bracket (c # cs) = None \<longleftrightarrow>
     c \<noteq> LBRACKET \<or> startsWith cs ETH_CLOSE \<or> RBRACKET \<notin> set cs"
  by (auto simp: re_bracket_def Let_def dropWhile_eq_Nil_conv)

lemma re_corner_None:
  "re_corner (c # cs) = None \<longleftrightarrow> c \<noteq> LCORNER \<or> RCORNER \<notin> set cs"
  by (auto simp: re_corner_def Let_def dropWhile_eq_Nil_conv)

lemma re_suffix_None:
  "re_suffix (c # cs) = None \<longleftrightarrow>
     \<not> (c = ZHUI \<and> (\<exists>d ds. cs = d # ds \<and> (d = FULLWIDTH_COLON \<or> d = COLON)))"
  by (cases cs) (auto simp: re_suffix_def)

lemma re_blank_None:
  "re_blank (c # cs) = None \<longleftrightarrow> c \<noteq> NL \<or> NL \<notin> set (takeWhile isSpace cs)"
  by (auto simp: re_blank_def Let_def dropWhile_eq_Nil_conv)

lemma ETH_CLOSE_chars:
  "ch \<in> set ETH_CLOSE \<Longrightarrow> ch \<noteq> LBRACKET \<and> ch \<noteq> LCORNER \<and> ch \<noteq> ZHUI \<and> ch \<noteq> NL"
  by (auto simp: ETH_CLOSE_def ascii_def)

lemma ETH_CLOSE_split:
  "ETH_CLOSE = xs @ us \<Longrightarrow> RBRACKET \<in> set xs \<Longrightarrow> us = []"
  by (auto simp: ETH_CLOSE_def ascii_def append_eq_Cons_conv Cons_eq_append_conv)

subsection \<open>The numeric tag and the prefix pattern find nothing after the first patterns\<close>

lemma re_numtag_bracket:
  assumes m: "re_numtag t \<noteq> None"
  shows "re_bracket t \<noteq> None"
proof (cases t)
  case Nil
  then show ?thesis using m by (simp add: re_numtag_def)
next
  case (Cons c cs)
  let ?r1 = "dropWhile isDigit cs"
  let ?r3 = "dropWhile (\<lambda>x. isDigit x \<or> x = SLASH) (drop 3 ?r1)"
  from m Cons have c: "c = LBRACKET" and ds: "takeWhile isDigit cs \<noteq> []"
    and r3: "startsWith ?r3 [RBRACKET]"
    by (auto simp: re_numtag_def Let_def split: if_splits)
  from r3 have "RBRACKET \<in> set ?r3" by (cases ?r3) (auto simp: startsWith_def)
  then have "RBRACKET \<in> set (drop 3 ?r1)" by (rule set_dropWhileD)
  then have "RBRACKET \<in> set ?r1" by (rule in_set_dropD)
  then have close: "RBRACKET \<in> set cs" by (rule set_dropWhileD)
  from ds obtain d ds' where cs: "cs = d # ds'" and d: "isDigit d"
    by (cases cs) (auto split: if_splits)
  have "\<not> startsWith cs ETH_CLOSE"
    using cs d by (auto simp: startsWith_def ETH_CLOSE_def ascii_def isDigit_def)
  then show ?thesis using c close Cons by (simp add: re_bracket_None)
qed

lemma noMatch_numtag: "noMatch re_bracket s \<Longrightarrow> noMatch re_numtag s"
proof (induction s)
  case Nil
  show ?case by simp
next
  case (Cons c cs)
  then have b: "re_bracket (c # cs) = None" and ih: "noMatch re_numtag cs" by simp_all
  have "re_numtag (c # cs) = None"
  proof (rule ccontr)
    assume "re_numtag (c # cs) \<noteq> None"
    then have "re_bracket (c # cs) \<noteq> None" by (rule re_numtag_bracket)
    then show False using b by simp
  qed
  then show ?case using ih by simp
qed

lemma re_prefix_suffix: "re_prefix (b # t) \<noteq> None \<Longrightarrow> t \<noteq> [] \<and> re_suffix t \<noteq> None"
  by (auto simp: re_prefix_def re_suffix_def split: list.splits if_splits)

lemma noMatch_Cons_None: "noMatch re t \<Longrightarrow> t \<noteq> [] \<Longrightarrow> re t = None"
  by (cases t) simp_all

lemma noMatch_prefix: "noMatch re_suffix s \<Longrightarrow> noMatch re_prefix s"
proof (induction s)
  case Nil
  show ?case by simp
next
  case (Cons c cs)
  then have cs: "noMatch re_suffix cs" and ih: "noMatch re_prefix cs" by simp_all
  have "re_prefix (c # cs) = None"
  proof (rule ccontr)
    assume "re_prefix (c # cs) \<noteq> None"
    then have "cs \<noteq> []" and "re_suffix cs \<noteq> None" using re_prefix_suffix by blast+
    then show False using noMatch_Cons_None [OF cs] by simp
  qed
  then show ?case using ih by simp
qed

subsection \<open>A pattern finds nothing in its own output\<close>

lemma bracket_head:
  assumes ns: "\<And>ch cs. ch \<in> set ETH_CLOSE \<Longrightarrow> re (ch # cs) = None"
    and rep: "RBRACKET \<notin> set rep"
    and none: "re_bracket (c # cs) = None"
  shows "re_bracket (c # replaceAll re rep cs) = None"
proof -
  from none consider "c \<noteq> LBRACKET" | "startsWith cs ETH_CLOSE" | "RBRACKET \<notin> set cs"
    unfolding re_bracket_None by blast
  then show ?thesis
  proof cases
    case 1
    then show ?thesis by (simp add: re_bracket_None)
  next
    case 2
    then obtain r where "cs = ETH_CLOSE @ r" unfolding startsWith_prefix prefix_def by blast
    then have "replaceAll re rep cs = ETH_CLOSE @ replaceAll re rep r"
      using replaceAll_skip [of ETH_CLOSE re rep r] ns by simp
    then have "startsWith (replaceAll re rep cs) ETH_CLOSE"
      unfolding startsWith_prefix by simp
    then show ?thesis by (simp add: re_bracket_None)
  next
    case 3
    then have "RBRACKET \<notin> set (replaceAll re rep cs)"
      using set_replaceAll [of re rep cs] rep by blast
    then show ?thesis by (simp add: re_bracket_None)
  qed
qed

lemma corner_head:
  assumes rep: "RCORNER \<notin> set rep" and none: "re_corner (c # cs) = None"
  shows "re_corner (c # replaceAll re rep cs) = None"
proof (cases "c = LCORNER")
  case True
  then have "RCORNER \<notin> set cs" using none by (simp add: re_corner_None)
  then have "RCORNER \<notin> set (replaceAll re rep cs)"
    using set_replaceAll [of re rep cs] rep by blast
  then show ?thesis by (simp add: re_corner_None)
next
  case False
  then show ?thesis by (simp add: re_corner_None)
qed

lemma re_suffix_None_hd:
  "re_suffix (c # cs) = None \<longleftrightarrow>
     c \<noteq> ZHUI \<or> cs = [] \<or> (hd cs \<noteq> FULLWIDTH_COLON \<and> hd cs \<noteq> COLON)"
  by (cases cs) (auto simp: re_suffix_None)

lemma suffix_head:
  assumes hdc: "\<And>cs. cs = [] \<or> (hd cs \<noteq> FULLWIDTH_COLON \<and> hd cs \<noteq> COLON) \<Longrightarrow>
                  replaceAll re rep cs = []
                  \<or> (hd (replaceAll re rep cs) \<noteq> FULLWIDTH_COLON \<and> hd (replaceAll re rep cs) \<noteq> COLON)"
    and none: "re_suffix (c # cs) = None"
  shows "re_suffix (c # replaceAll re rep cs) = None"
proof (cases "c = ZHUI")
  case True
  then have "cs = [] \<or> (hd cs \<noteq> FULLWIDTH_COLON \<and> hd cs \<noteq> COLON)"
    using none by (simp add: re_suffix_None_hd)
  from hdc [OF this] show ?thesis by (simp add: re_suffix_None_hd)
next
  case False
  then show ?thesis by (simp add: re_suffix_None_hd)
qed

lemma re_suffix_Some:
  assumes "re_suffix (c # cs) = Some n"
  shows "\<exists>d ds. cs = d # ds
           \<and> drop (n - 1) cs = dropWhile (\<lambda>x. \<not> isLineTerminator x) ds"
proof -
  from assms obtain d ds where cs: "cs = d # ds"
    and n: "n = 2 + length (takeWhile (\<lambda>x. \<not> isLineTerminator x) ds)"
    by (cases cs) (auto simp: re_suffix_def split: if_splits)
  have "drop (n - 1) cs = drop (length (takeWhile (\<lambda>x. \<not> isLineTerminator x) ds)) ds"
    using cs n by simp
  then show ?thesis using cs by (simp add: dropWhile_eq_drop)
qed

lemma suffix_hd:
  assumes "cs = [] \<or> (hd cs \<noteq> FULLWIDTH_COLON \<and> hd cs \<noteq> COLON)"
  shows "replaceAll re_suffix [] cs = []
         \<or> (hd (replaceAll re_suffix [] cs) \<noteq> FULLWIDTH_COLON
            \<and> hd (replaceAll re_suffix [] cs) \<noteq> COLON)"
proof (cases cs)
  case Nil
  then show ?thesis by simp
next
  case (Cons d ds)
  show ?thesis
  proof (cases "re_suffix (d # ds)")
    case None
    then show ?thesis using assms Cons by simp
  next
    case (Some n)
    then obtain e es where "drop (n - 1) ds = dropWhile (\<lambda>x. \<not> isLineTerminator x) es"
      using re_suffix_Some by blast
    then have r: "replaceAll re_suffix [] cs
        = replaceAll re_suffix [] (dropWhile (\<lambda>x. \<not> isLineTerminator x) es)"
      using Cons Some by simp
    show ?thesis
    proof (cases "dropWhile (\<lambda>x. \<not> isLineTerminator x) es")
      case Nil
      show ?thesis unfolding r Nil by simp
    next
      case (Cons l xs)
      then have "isLineTerminator l"
        using hd_dropWhile [of "\<lambda>x. \<not> isLineTerminator x" es] by auto
      then have l: "l \<noteq> ZHUI \<and> l \<noteq> FULLWIDTH_COLON \<and> l \<noteq> COLON"
        by (auto simp: isLineTerminator_def)
      then have "re_suffix (l # xs) = None" by (simp add: re_suffix_None)
      then show ?thesis unfolding r Cons using l by simp
    qed
  qed
qed

lemma blank_hd:
  assumes "cs = [] \<or> (hd cs \<noteq> FULLWIDTH_COLON \<and> hd cs \<noteq> COLON)"
  shows "replaceAll re_blank [NL] cs = []
         \<or> (hd (replaceAll re_blank [NL] cs) \<noteq> FULLWIDTH_COLON
            \<and> hd (replaceAll re_blank [NL] cs) \<noteq> COLON)"
proof (cases cs)
  case Nil
  then show ?thesis by simp
next
  case (Cons d ds)
  then show ?thesis using assms by (cases "re_blank (d # ds)") simp_all
qed

lemma takeWhile_dropWhile_Nil: "takeWhile P (dropWhile P xs) = []"
  by (induction xs) simp_all

lemma replaceAll_blank_nonspace:
  "takeWhile isSpace (replaceAll re_blank [NL] (dropWhile isSpace cs)) = []"
proof (cases "dropWhile isSpace cs")
  case Nil
  show ?thesis unfolding Nil by simp
next
  case (Cons x xs)
  then have x: "\<not> isSpace x" using hd_dropWhile [of isSpace cs] by auto
  then have "x \<noteq> NL" by (auto simp: isSpace_def)
  then have "re_blank (x # xs) = None" by (simp add: re_blank_None)
  then show ?thesis unfolding Cons using x by simp
qed

lemma blank_no_newline:
  assumes "NL \<notin> set (takeWhile isSpace cs)"
  shows "takeWhile isSpace (replaceAll re_blank [NL] cs) = takeWhile isSpace cs"
proof -
  have ns: "\<And>c t. c \<in> set (takeWhile isSpace cs) \<Longrightarrow> re_blank (c # t) = None"
    using assms by (auto simp: re_blank_None)
  have "replaceAll re_blank [NL] (takeWhile isSpace cs @ dropWhile isSpace cs)
      = takeWhile isSpace cs @ replaceAll re_blank [NL] (dropWhile isSpace cs)"
    using ns by (rule replaceAll_skip)
  then have "replaceAll re_blank [NL] cs
      = takeWhile isSpace cs @ replaceAll re_blank [NL] (dropWhile isSpace cs)"
    by simp
  moreover have "takeWhile isSpace (takeWhile isSpace cs @ replaceAll re_blank [NL] (dropWhile isSpace cs))
      = takeWhile isSpace cs @ takeWhile isSpace (replaceAll re_blank [NL] (dropWhile isSpace cs))"
    by (rule takeWhile_append2) (auto dest: set_takeWhileD)
  ultimately show ?thesis by (simp add: replaceAll_blank_nonspace)
qed

lemma blank_stable:
  assumes "re_blank (c # cs) = None"
  shows "re_blank (c # replaceAll re_blank [NL] cs) = None"
proof (cases "c = NL")
  case True
  then have "NL \<notin> set (takeWhile isSpace cs)" using assms by (simp add: re_blank_None)
  then show ?thesis using blank_no_newline [of cs] by (simp add: re_blank_None)
next
  case False
  then show ?thesis by (simp add: re_blank_None)
qed

lemma blank_after:
  assumes "re_blank (c # cs) = Some n"
  shows "re_blank (NL # drop (n - 1) cs) = None"
proof -
  let ?ws = "takeWhile isSpace cs"
  let ?m = "rev (dropWhile (\<lambda>x. x \<noteq> NL) (rev ?ws))"
  let ?t = "rev (takeWhile (\<lambda>x. x \<noteq> NL) (rev ?ws))"
  from assms have n: "n = 1 + length ?m"
    by (auto simp: re_blank_def Let_def split: if_splits)
  have ws: "?ws = ?m @ ?t"
    using takeWhile_dropWhile_id [of "\<lambda>x. x \<noteq> NL" "rev ?ws"]
    by (metis rev_append rev_rev_ident)
  have "cs = ?m @ ?t @ dropWhile isSpace cs"
    using takeWhile_dropWhile_id [of isSpace cs] ws by (metis append.assoc)
  then have "drop (length ?m) cs = ?t @ dropWhile isSpace cs"
    by (metis append_eq_conv_conj)
  then have d: "drop (n - 1) cs = ?t @ dropWhile isSpace cs" using n by simp
  have sp: "\<And>x. x \<in> set ?t \<Longrightarrow> isSpace x"
  proof -
    fix x assume "x \<in> set ?t"
    then have "x \<in> set ?ws" using ws by (metis Un_iff set_append)
    then show "isSpace x" by (rule set_takeWhileD [THEN conjunct2])
  qed
  have "takeWhile isSpace (?t @ dropWhile isSpace cs) = ?t @ takeWhile isSpace (dropWhile isSpace cs)"
    using sp by (rule takeWhile_append2)
  then have "takeWhile isSpace (drop (n - 1) cs) = ?t"
    using d by (simp add: takeWhile_dropWhile_Nil)
  moreover have "NL \<notin> set ?t" by (auto dest: set_takeWhileD)
  ultimately show ?thesis by (simp add: re_blank_None)
qed

lemma noMatch_bracket_out: "noMatch re_bracket (replaceAll re_bracket [] s)"
proof (rule replaceAll_noMatch)
  fix c cs assume "re_bracket (c # cs) = None"
  then show "re_bracket (c # replaceAll re_bracket [] cs) = None"
    by (intro bracket_head) (auto simp: re_bracket_None dest: ETH_CLOSE_chars)
qed simp

lemma noMatch_corner_out: "noMatch re_corner (replaceAll re_corner [] s)"
proof (rule replaceAll_noMatch)
  fix c cs assume "re_corner (c # cs) = None"
  then show "re_corner (c # replaceAll re_corner [] cs) = None"
    by (intro corner_head) simp_all
qed simp

lemma noMatch_suffix_out: "noMatch re_suffix (replaceAll re_suffix [] s)"
proof (rule replaceAll_noMatch)
  fix c cs assume "re_suffix (c # cs) = None"
  then show "re_suffix (c # replaceAll re_suffix [] cs) = None"
    using suffix_hd by (rule suffix_head [rotated])
qed simp

lemma noMatch_blank_out: "noMatch re_blank (replaceAll re_blank [NL] s)"
proof (rule replaceAll_noMatch)
  fix c cs assume "re_blank (c # cs) = None"
  then show "re_blank (c # replaceAll re_blank [NL] cs) = None" by (rule blank_stable)
next
  fix c cs n assume "re_blank (c # cs) = Some n"
  then have "re_blank (NL # drop (n - 1) cs) = None" by (rule blank_after)
  then show "[NL] = [] \<or> (\<exists>r. [NL] = [r] \<and> re_blank (r # drop (n - 1) cs) = None)" by simp
qed

subsection \<open>The later substitutions keep what the earlier ones achieved\<close>

lemma bracket_corner: "noMatch re_bracket s \<Longrightarrow> noMatch re_bracket (replaceAll re_corner [] s)"
proof (rule replaceAll_preserves)
  fix c cs assume "re_bracket (c # cs) = None"
  then show "re_bracket (c # replaceAll re_corner [] cs) = None"
    by (intro bracket_head) (auto simp: re_corner_None dest: ETH_CLOSE_chars)
qed simp_all

lemma bracket_suffix: "noMatch re_bracket s \<Longrightarrow> noMatch re_bracket (replaceAll re_suffix [] s)"
proof (rule replaceAll_preserves)
  fix c cs assume "re_bracket (c # cs) = None"
  then show "re_bracket (c # replaceAll re_suffix [] cs) = None"
    by (intro bracket_head) (auto simp: re_suffix_None dest: ETH_CLOSE_chars)
qed simp_all

lemma bracket_blank: "noMatch re_bracket s \<Longrightarrow> noMatch re_bracket (replaceAll re_blank [NL] s)"
proof (rule replaceAll_preserves)
  fix c cs assume "re_bracket (c # cs) = None"
  then show "re_bracket (c # replaceAll re_blank [NL] cs) = None"
    by (intro bracket_head) (auto simp: re_blank_None dest: ETH_CLOSE_chars)
qed (simp_all add: re_bracket_None)

lemma corner_suffix: "noMatch re_corner s \<Longrightarrow> noMatch re_corner (replaceAll re_suffix [] s)"
proof (rule replaceAll_preserves)
  fix c cs assume "re_corner (c # cs) = None"
  then show "re_corner (c # replaceAll re_suffix [] cs) = None"
    by (intro corner_head) simp_all
qed simp_all

lemma corner_blank: "noMatch re_corner s \<Longrightarrow> noMatch re_corner (replaceAll re_blank [NL] s)"
proof (rule replaceAll_preserves)
  fix c cs assume "re_corner (c # cs) = None"
  then show "re_corner (c # replaceAll re_blank [NL] cs) = None"
    by (intro corner_head) simp_all
qed (simp_all add: re_corner_None)

lemma suffix_blank: "noMatch re_suffix s \<Longrightarrow> noMatch re_suffix (replaceAll re_blank [NL] s)"
proof (rule replaceAll_preserves)
  fix c cs assume "re_suffix (c # cs) = None"
  then show "re_suffix (c # replaceAll re_blank [NL] cs) = None"
    using blank_hd by (rule suffix_head [rotated])
qed (simp_all add: re_suffix_None)

subsection \<open>A match stays a match when the text goes on\<close>

lemma mono_bracket: "re_bracket t \<noteq> None \<Longrightarrow> re_bracket (t @ u) \<noteq> None"
proof (cases t)
  case Nil
  assume "re_bracket t \<noteq> None"
  then show ?thesis using Nil by (simp add: re_bracket_def)
next
  case (Cons c cs)
  assume "re_bracket t \<noteq> None"
  then have c: "c = LBRACKET" and ns: "\<not> startsWith cs ETH_CLOSE" and cl: "RBRACKET \<in> set cs"
    using Cons by (auto simp: re_bracket_None)
  have "\<not> startsWith (cs @ u) ETH_CLOSE"
  proof
    assume "startsWith (cs @ u) ETH_CLOSE"
    then have "prefix ETH_CLOSE (cs @ u)" by (simp add: startsWith_prefix)
    then consider "prefix ETH_CLOSE cs" | us where "ETH_CLOSE = cs @ us"
      unfolding prefix_append by blast
    then show False
    proof cases
      case 1
      then show False using ns by (simp add: startsWith_prefix)
    next
      case 2
      then have "us = []" using cl by (rule ETH_CLOSE_split)
      then have "prefix ETH_CLOSE cs" using 2 by simp
      then show False using ns by (simp add: startsWith_prefix)
    qed
  qed
  then show ?thesis using c cl Cons by (simp add: re_bracket_None)
qed

lemma mono_corner: "re_corner t \<noteq> None \<Longrightarrow> re_corner (t @ u) \<noteq> None"
  by (cases t) (auto simp: re_corner_None, simp add: re_corner_def)

lemma mono_suffix: "re_suffix t \<noteq> None \<Longrightarrow> re_suffix (t @ u) \<noteq> None"
  by (cases t) (auto simp: re_suffix_None, simp add: re_suffix_def)

lemma takeWhile_append_subset: "set (takeWhile P xs) \<subseteq> set (takeWhile P (xs @ ys))"
  by (induction xs) auto

lemma mono_blank: "re_blank t \<noteq> None \<Longrightarrow> re_blank (t @ u) \<noteq> None"
proof (cases t)
  case Nil
  assume "re_blank t \<noteq> None"
  then show ?thesis using Nil by (simp add: re_blank_def)
next
  case (Cons c cs)
  assume "re_blank t \<noteq> None"
  then have "c = NL" and "NL \<in> set (takeWhile isSpace cs)"
    using Cons by (auto simp: re_blank_None)
  then show ?thesis using Cons takeWhile_append_subset [of isSpace cs u]
    by (auto simp: re_blank_None)
qed

subsection \<open>Removing whole lines creates no match\<close>

lemma cut_bracket:
  assumes "x \<noteq> []" and "re_bracket (x @ NL # y @ NL # z) = None"
  shows "re_bracket (x @ NL # z) = None"
proof -
  from assms(1) obtain c cs where x: "x = c # cs" by (cases x) auto
  from assms(2) x consider "c \<noteq> LBRACKET" | "startsWith (cs @ NL # y @ NL # z) ETH_CLOSE"
    | "RBRACKET \<notin> set (cs @ NL # y @ NL # z)"
    by (auto simp: re_bracket_None)
  then show ?thesis
  proof cases
    case 1
    then show ?thesis using x by (simp add: re_bracket_None)
  next
    case 2
    then have "prefix ETH_CLOSE (cs @ NL # y @ NL # z)" by (simp add: startsWith_prefix)
    then consider "prefix ETH_CLOSE cs"
      | us where "ETH_CLOSE = cs @ us" and "prefix us (NL # y @ NL # z)"
      unfolding prefix_append by blast
    then have "prefix ETH_CLOSE cs"
    proof cases
      case 1
      then show ?thesis .
    next
      case 2
      show ?thesis
      proof (cases us)
        case Nil
        then show ?thesis using 2 by simp
      next
        case (Cons e es)
        then have "e = NL" using 2(2) by simp
        then have "set ETH_CLOSE = set (cs @ NL # es)" using 2(1) Cons by simp
        then have "NL \<in> set ETH_CLOSE" by simp
        then show ?thesis using ETH_CLOSE_chars by blast
      qed
    qed
    then have "startsWith (cs @ NL # z) ETH_CLOSE"
      by (simp add: startsWith_prefix prefix_prefix)
    then show ?thesis using x by (simp add: re_bracket_None)
  next
    case 3
    then show ?thesis using x by (simp add: re_bracket_None)
  qed
qed

lemma cut_corner:
  assumes "x \<noteq> []" and "re_corner (x @ NL # y @ NL # z) = None"
  shows "re_corner (x @ NL # z) = None"
  using assms by (cases x) (auto simp: re_corner_None)

lemma cut_suffix:
  assumes "x \<noteq> []" and "re_suffix (x @ NL # y @ NL # z) = None"
  shows "re_suffix (x @ NL # z) = None"
proof -
  from assms(1) obtain c cs where x: "x = c # cs" by (cases x) auto
  show ?thesis using assms(2) x by (cases cs) (auto simp: re_suffix_None_hd)
qed

lemma cut_blank:
  assumes "x \<noteq> []" and "re_blank (x @ NL # y @ NL # z) = None"
  shows "re_blank (x @ NL # z) = None"
proof -
  from assms(1) obtain c cs where x: "x = c # cs" by (cases x) auto
  show ?thesis
  proof (cases "c = NL")
    case True
    then have n: "NL \<notin> set (takeWhile isSpace (cs @ NL # y @ NL # z))"
      using assms(2) x by (simp add: re_blank_None)
    have "\<exists>e \<in> set cs. \<not> isSpace e"
    proof (rule ccontr)
      assume "\<not> (\<exists>e \<in> set cs. \<not> isSpace e)"
      then have "takeWhile isSpace (cs @ NL # y @ NL # z)
          = cs @ takeWhile isSpace (NL # y @ NL # z)"
        by (intro takeWhile_append2) simp
      then show False using n by (simp add: isSpace_def)
    qed
    then obtain e where e: "e \<in> set cs" "\<not> isSpace e" by blast
    then have "takeWhile isSpace (cs @ NL # z) = takeWhile isSpace cs"
      and "takeWhile isSpace (cs @ NL # y @ NL # z) = takeWhile isSpace cs"
      by (simp_all add: takeWhile_append1)
    then show ?thesis using n x by (simp add: re_blank_None)
  next
    case False
    then show ?thesis using x by (simp add: re_blank_None)
  qed
qed

subsection \<open>Trimming\<close>

lemma trim_decomp: "\<exists>a b. s = a @ trim s @ b"
proof -
  let ?d = "dropWhile isSpace s"
  have "?d = rev (dropWhile isSpace (rev ?d)) @ rev (takeWhile isSpace (rev ?d))"
    using takeWhile_dropWhile_id [of isSpace "rev ?d"] by (metis rev_append rev_rev_ident)
  then have "s = takeWhile isSpace s @ trim s @ rev (takeWhile isSpace (rev ?d))"
    unfolding trim_def using takeWhile_dropWhile_id [of isSpace s] by metis
  then show ?thesis by blast
qed

lemma noMatch_trim:
  assumes mono: "\<And>t u. re t \<noteq> None \<Longrightarrow> re (t @ u) \<noteq> None"
    and "noMatch re s"
  shows "noMatch re (trim s)"
proof -
  obtain a b where "s = a @ trim s @ b" using trim_decomp by blast
  then have "noMatch re (a @ trim s @ b)" using assms(2) by simp
  then have "noMatch re (trim s @ b)" by (rule noMatch_appendD2)
  then show ?thesis using mono by (rule noMatch_appendD1 [rotated])
qed

lemma trimmed_trim: "trimmed (trim s)"
proof (cases "trim s = []")
  case True
  then show ?thesis by (simp add: trimmed_def)
next
  case False
  let ?d = "dropWhile isSpace s"
  let ?e = "dropWhile isSpace (rev ?d)"
  from False have e: "?e \<noteq> []" by (simp add: trim_def del: dropWhile_eq_Nil_conv)
  have d: "?d \<noteq> []"
  proof
    assume "?d = []"
    then have "?e = []" by (simp only: rev.simps dropWhile.simps)
    then show False using e by simp
  qed
  have "last (trim s) = hd ?e" using e by (simp add: trim_def last_rev del: dropWhile_eq_Nil_conv)
  then have l: "\<not> isSpace (last (trim s))" using hd_dropWhile [OF e] by simp
  obtain p where p: "rev ?d = p @ ?e"
    using takeWhile_dropWhile_id [of isSpace "rev ?d"] by metis
  have "hd (trim s) = last ?e" using e by (simp add: trim_def hd_rev del: dropWhile_eq_Nil_conv)
  also have "\<dots> = last (rev ?d)" using p e by (metis last_appendR)
  also have "\<dots> = hd ?d" using d by (simp add: last_rev del: dropWhile_eq_Nil_conv)
  finally have "\<not> isSpace (hd (trim s))" using hd_dropWhile [OF d] by simp
  then show ?thesis using l by (simp add: trimmed_def)
qed

lemma trim_id: "trimmed s \<Longrightarrow> trim s = s"
proof (cases s)
  case Nil
  then show ?thesis by (simp add: trim_def)
next
  case (Cons c cs)
  assume "trimmed s"
  then have h: "\<not> isSpace (hd s)" and l: "\<not> isSpace (last s)" using Cons by (auto simp: trimmed_def)
  have 1: "dropWhile isSpace s = s" using h Cons by simp
  have "rev s \<noteq> []" using Cons by simp
  then obtain e es where r: "rev s = e # es" by (cases "rev s") auto
  then have "e = last s" using Cons by (metis hd_rev list.sel(1))
  then have "dropWhile isSpace (e # es) = e # es" using l by simp
  then have "dropWhile isSpace (rev s) = rev s" by (simp only: r)
  then show ?thesis using 1 by (simp add: trim_def)
qed

lemma preprocessOcrText_found:
  assumes "i < length (split (processedText s))"
    and "isLevelLine (split (processedText s) ! i)"
    and "\<forall>j<i. \<not> isLevelLine (split (processedText s) ! j)"
  shows "preprocessOcrText s
           = trim (join (take (min 3 i) (split (processedText s))
                         @ drop i (split (processedText s))))"
proof -
  have "levelRequirementIndex (split (processedText s)) 0 = Some i"
    using assms by (intro levelRequirementIndex_first) simp_all
  then show ?thesis by (simp add: preprocessOcrText_def Let_def)
qed

lemma preprocessOcrText_not_found:
  assumes "\<forall>l \<in> set (split (processedText s)). \<not> isLevelLine l"
  shows "preprocessOcrText s = processedText s"
proof -
  have "levelRequirementIndex (split (processedText s)) 0 = None"
    using assms by (intro levelRequirementIndex_none) simp
  then show ?thesis by (simp add: preprocessOcrText_def Let_def)
qed

subsection \<open>Splitting and joining\<close>

lemma split_nonempty: "split s \<noteq> []"
  by (induction s) (auto split: list.splits)

lemma split_no_newline: "l \<in> set (split s) \<Longrightarrow> NL \<notin> set l"
  by (induction s arbitrary: l) (auto split: list.splits if_splits)

lemma join_Cons: "ls \<noteq> [] \<Longrightarrow> join (l # ls) = l @ NL # join ls"
  by (cases ls) simp_all

lemma join_Cons_Cons: "join ((c # l) # ls) = c # join (l # ls)"
  by (cases ls) simp_all

lemma join_split: "join (split s) = s"
proof (induction s)
  case Nil
  show ?case by simp
next
  case (Cons c cs)
  obtain l ls where sp: "split cs = l # ls" using split_nonempty [of cs] by (cases "split cs") auto
  show ?case
  proof (cases "c = NL")
    case True
    then have "join (split (c # cs)) = [] @ NL # join (split cs)"
      using split_nonempty [of cs] by (simp add: join_Cons)
    then show ?thesis using Cons.IH True by simp
  next
    case False
    then have "join (split (c # cs)) = c # join (l # ls)" using sp by (simp add: join_Cons_Cons)
    then show ?thesis using Cons.IH sp by simp
  qed
qed

lemma split_line: "NL \<notin> set l \<Longrightarrow> split l = [l]"
  by (induction l) auto

lemma split_append_newline: "NL \<notin> set l \<Longrightarrow> split (l @ NL # r) = l # split r"
  by (induction l) auto

lemma split_join:
  assumes "ls \<noteq> []" and "\<forall>l \<in> set ls. NL \<notin> set l"
  shows "split (join ls) = ls"
  using assms
proof (induction ls)
  case Nil
  then show ?case by simp
next
  case (Cons l ls)
  show ?case
  proof (cases ls)
    case Nil
    then show ?thesis using Cons.prems by (simp add: split_line)
  next
    case (Cons x xs)
    then have "split (join ls) = ls" using Cons.IH Cons.prems by simp
    then show ?thesis using Cons Cons.prems by (simp add: split_append_newline)
  qed
qed

lemma join_append:
  assumes "xs \<noteq> []" and "ys \<noteq> []"
  shows "join (xs @ ys) = join xs @ NL # join ys"
  using assms
proof (induction xs)
  case Nil
  then show ?case by simp
next
  case (Cons x xs)
  show ?case
  proof (cases xs)
    case Nil
    then show ?thesis using Cons.prems by (simp add: join_Cons)
  next
    case (Cons z zs)
    then have "join (xs @ ys) = join xs @ NL # join ys" using Cons.IH Cons.prems by simp
    then show ?thesis using Cons by simp
  qed
qed

subsection \<open>The processed text is a fixed point of the substitutions\<close>

lemma clean_processedText: "clean (processedText s)"
proof -
  let ?s1 = "replaceAll re_bracket [] s"
  let ?s3 = "replaceAll re_corner [] ?s1"
  let ?s4 = "replaceAll re_suffix [] ?s3"
  let ?s6 = "replaceAll re_blank [NL] ?s4"
  have b1: "noMatch re_bracket ?s1" by (rule noMatch_bracket_out)
  then have s2: "replaceAll re_numtag [] ?s1 = ?s1" by (intro replaceAll_id noMatch_numtag)
  have b3: "noMatch re_bracket ?s3" using b1 by (rule bracket_corner)
  have c3: "noMatch re_corner ?s3" by (rule noMatch_corner_out)
  have b4: "noMatch re_bracket ?s4" using b3 by (rule bracket_suffix)
  have c4: "noMatch re_corner ?s4" using c3 by (rule corner_suffix)
  have z4: "noMatch re_suffix ?s4" by (rule noMatch_suffix_out)
  then have s5: "replaceAll re_prefix [] ?s4 = ?s4" by (intro replaceAll_id noMatch_prefix)
  have b6: "noMatch re_bracket ?s6" using b4 by (rule bracket_blank)
  have c6: "noMatch re_corner ?s6" using c4 by (rule corner_blank)
  have z6: "noMatch re_suffix ?s6" using z4 by (rule suffix_blank)
  have n6: "noMatch re_blank ?s6" by (rule noMatch_blank_out)
  have p: "processedText s = trim ?s6" by (simp add: processedText_def s2 s5)
  have "noMatch re_bracket (trim ?s6)" using mono_bracket b6 by (rule noMatch_trim)
  moreover have "noMatch re_corner (trim ?s6)" using mono_corner c6 by (rule noMatch_trim)
  moreover have "noMatch re_suffix (trim ?s6)" using mono_suffix z6 by (rule noMatch_trim)
  moreover have "noMatch re_blank (trim ?s6)" using mono_blank n6 by (rule noMatch_trim)
  ultimately show ?thesis unfolding p clean_def using trimmed_trim by blast
qed

lemma processedText_clean:
  assumes "clean s"
  shows "processedText s = s"
proof -
  from assms have b: "noMatch re_bracket s" and c: "noMatch re_corner s"
    and z: "noMatch re_suffix s" and n: "noMatch re_blank s" and t: "trimmed s"
    by (simp_all add: clean_def)
  have "replaceAll re_bracket [] s = s" using b by (rule replaceAll_id)
  moreover have "replaceAll re_numtag [] s = s" using b by (intro replaceAll_id noMatch_numtag)
  moreover have "replaceAll re_corner [] s = s" using c by (rule replaceAll_id)
  moreover have "replaceAll re_suffix [] s = s" using z by (rule replaceAll_id)
  moreover have "replaceAll re_prefix [] s = s" using z by (intro replaceAll_id noMatch_prefix)
  moreover have "replaceAll re_blank [NL] s = s" using n by (rule replaceAll_id)
  moreover have "trim s = s" using t by (rule trim_id)
  ultimately show ?thesis by (simp add: processedText_def)
qed

subsection \<open>Dropping the lines between the name and the level line\<close>

lemma noMatch_truncate:
  assumes cut: "\<And>x y z. x \<noteq> [] \<Longrightarrow> re (x @ NL # y @ NL # z) = None \<Longrightarrow> re (x @ NL # z) = None"
    and "noMatch re (join (xs @ ys @ zs))" and "xs \<noteq> []" and "ys \<noteq> []" and "zs \<noteq> []"
  shows "noMatch re (join (xs @ zs))"
proof -
  have "join (xs @ ys @ zs) = join xs @ NL # join ys @ NL # join zs"
    using assms(3-5) by (simp add: join_append)
  then have "noMatch re (join xs @ NL # join ys @ NL # join zs)" using assms(2) by simp
  then have "noMatch re (join xs @ NL # join zs)" using cut by (rule noMatch_cut [rotated])
  then show ?thesis using assms(3,5) by (simp add: join_append)
qed

lemma trimmed_truncate:
  assumes "trimmed (join (xs @ ys @ zs))" and "xs \<noteq> []" and "ys \<noteq> []" and "zs \<noteq> []"
    and "join zs \<noteq> []"
  shows "trimmed (join (xs @ zs))"
proof -
  let ?a = "join xs" and ?m = "join ys" and ?b = "join zs"
  have p: "join (xs @ ys @ zs) = ?a @ NL # ?m @ NL # ?b"
    using assms(2-4) by (simp add: join_append)
  have f: "join (xs @ zs) = ?a @ NL # ?b" using assms(2,4) by (simp add: join_append)
  from assms(1) have h: "\<not> isSpace (hd (?a @ NL # ?m @ NL # ?b))"
    and l: "\<not> isSpace (last (?a @ NL # ?m @ NL # ?b))"
    unfolding p trimmed_def by simp_all
  have "hd (?a @ NL # ?b) = hd (?a @ NL # ?m @ NL # ?b)" by (cases ?a) simp_all
  moreover have "last (?a @ NL # ?b) = last (?a @ NL # ?m @ NL # ?b)"
    using assms(5) by simp
  ultimately show ?thesis unfolding f trimmed_def using h l by simp
qed

lemma isLevelLine_Nil: "\<not> isLevelLine []"
  by (simp add: isLevelLine_def MARKER_TRAD_def MARKER_SIMP_def MARKER_EN_def ascii_def)

lemma isLevelLine_nonempty: "isLevelLine l \<Longrightarrow> l \<noteq> []"
  using isLevelLine_Nil by blast

lemma join_nonempty: "ls \<noteq> [] \<Longrightarrow> hd ls \<noteq> [] \<Longrightarrow> join ls \<noteq> []"
  by (cases ls rule: join.cases) simp_all

lemma clean_cut:
  assumes c: "clean (join (xs @ ys @ zs))"
    and xs: "xs \<noteq> []" and ys: "ys \<noteq> []" and zs: "zs \<noteq> []" and jz: "join zs \<noteq> []"
  shows "clean (join (xs @ zs))"
proof -
  have 1: "noMatch re_bracket (join (xs @ zs))"
  proof (rule noMatch_truncate [where re = re_bracket and ys = ys])
    fix x y z :: jsstring
    assume "x \<noteq> []" and "re_bracket (x @ NL # y @ NL # z) = None"
    then show "re_bracket (x @ NL # z) = None" by (rule cut_bracket)
  next
    show "noMatch re_bracket (join (xs @ ys @ zs))" using c by (simp add: clean_def)
  qed (fact xs ys zs)+
  have 2: "noMatch re_corner (join (xs @ zs))"
  proof (rule noMatch_truncate [where re = re_corner and ys = ys])
    fix x y z :: jsstring
    assume "x \<noteq> []" and "re_corner (x @ NL # y @ NL # z) = None"
    then show "re_corner (x @ NL # z) = None" by (rule cut_corner)
  next
    show "noMatch re_corner (join (xs @ ys @ zs))" using c by (simp add: clean_def)
  qed (fact xs ys zs)+
  have 3: "noMatch re_suffix (join (xs @ zs))"
  proof (rule noMatch_truncate [where re = re_suffix and ys = ys])
    fix x y z :: jsstring
    assume "x \<noteq> []" and "re_suffix (x @ NL # y @ NL # z) = None"
    then show "re_suffix (x @ NL # z) = None" by (rule cut_suffix)
  next
    show "noMatch re_suffix (join (xs @ ys @ zs))" using c by (simp add: clean_def)
  qed (fact xs ys zs)+
  have 4: "noMatch re_blank (join (xs @ zs))"
  proof (rule noMatch_truncate [where re = re_blank and ys = ys])
    fix x y z :: jsstring
    assume "x \<noteq> []" and "re_blank (x @ NL # y @ NL # z) = None"
    then show "re_blank (x @ NL # z) = None" by (rule cut_blank)
  next
    show "noMatch re_blank (join (xs @ ys @ zs))" using c by (simp add: clean_def)
  qed (fact xs ys zs)+
  from c have "trimmed (join (xs @ ys @ zs))" by (simp add: clean_def)
  then have "trimmed (join (xs @ zs))" using xs ys zs jz by (rule trimmed_truncate)
  then show ?thesis using 1 2 3 4 by (simp add: clean_def)
qed

lemma clean_truncate:
  assumes "clean (join lines)" and "i < length lines" and "isLevelLine (lines ! i)"
  shows "clean (join (take (min 3 i) lines @ drop i lines))"
proof (cases "i \<le> 3")
  case True
  then show ?thesis using assms(1) by (simp add: min_absorb2)
next
  case False
  let ?xs = "take 3 lines" and ?ys = "take (i - 3) (drop 3 lines)" and ?zs = "drop i lines"
  from False have k: "min 3 i = 3" by simp
  have "take (3 + (i - 3)) lines = ?xs @ ?ys" by (rule take_add)
  then have "take i lines = ?xs @ ?ys" using False by simp
  then have whole: "lines = ?xs @ ?ys @ ?zs"
    using append_take_drop_id [of i lines] by simp
  have xs: "?xs \<noteq> []" and ys: "?ys \<noteq> []" and zs: "?zs \<noteq> []"
    using False assms(2) by auto
  have "hd ?zs = lines ! i" using assms(2) by (simp add: hd_drop_conv_nth)
  then have "hd ?zs \<noteq> []" using assms(3) isLevelLine_nonempty by simp
  with zs have jz: "join ?zs \<noteq> []" by (rule join_nonempty)
  have c: "clean (join (?xs @ ?ys @ ?zs))" using assms(1) whole by simp
  show ?thesis unfolding k using c xs ys zs jz by (rule clean_cut)
qed

subsection \<open>The second run\<close>

lemma preprocessOcrText_clean_fixed:
  assumes c: "clean t" and lines: "split t = ls" and k: "k < length ls" and "k \<le> 3"
    and lvl: "isLevelLine (ls ! k)" and before: "\<forall>j<k. \<not> isLevelLine (ls ! j)"
  shows "preprocessOcrText t = t"
proof -
  have p: "processedText t = t" using c by (rule processedText_clean)
  have sp: "split (processedText t) = ls" using p lines by simp
  have "preprocessOcrText t
      = trim (join (take (min 3 k) (split (processedText t)) @ drop k (split (processedText t))))"
    using k lvl before unfolding sp [symmetric] by (rule preprocessOcrText_found)
  also have "\<dots> = trim (join (take k ls @ drop k ls))"
    using \<open>k \<le> 3\<close> unfolding sp by (simp only: min_absorb2)
  also have "\<dots> = trim (join ls)" by simp
  also have "\<dots> = trim t" using join_split [of t] lines by simp
  also have "\<dots> = t" using c by (intro trim_id) (simp add: clean_def)
  finally show ?thesis .
qed

lemma idem_not_found:
  assumes none: "\<forall>l \<in> set (split (processedText s)). \<not> isLevelLine l"
  shows "preprocessOcrText (preprocessOcrText s) = preprocessOcrText s"
proof -
  let ?p = "processedText s"
  have 1: "preprocessOcrText s = ?p" using none by (rule preprocessOcrText_not_found)
  have pp: "processedText ?p = ?p" using clean_processedText by (rule processedText_clean)
  have "\<forall>l \<in> set (split (processedText ?p)). \<not> isLevelLine l" unfolding pp by (rule none)
  then have "preprocessOcrText ?p = processedText ?p" by (rule preprocessOcrText_not_found)
  then show ?thesis unfolding 1 pp .
qed

lemma truncated_lines:
  assumes i: "i < length ls" and lvl: "isLevelLine (ls ! i)"
    and least: "\<forall>j<i. \<not> isLevelLine (ls ! j)"
  shows "min 3 i < length (take (min 3 i) ls @ drop i ls)"
    and "isLevelLine ((take (min 3 i) ls @ drop i ls) ! min 3 i)"
    and "\<forall>j<min 3 i. \<not> isLevelLine ((take (min 3 i) ls @ drop i ls) ! j)"
proof -
  have lk: "length (take (min 3 i) ls) = min 3 i" using i by simp
  show "min 3 i < length (take (min 3 i) ls @ drop i ls)" using i by simp
  have "(take (min 3 i) ls @ drop i ls) ! min 3 i = drop i ls ! 0"
    using lk by (simp add: nth_append)
  also have "\<dots> = ls ! i" using i by simp
  finally show "isLevelLine ((take (min 3 i) ls @ drop i ls) ! min 3 i)" using lvl by simp
  show "\<forall>j<min 3 i. \<not> isLevelLine ((take (min 3 i) ls @ drop i ls) ! j)"
  proof (intro allI impI)
    fix j assume j: "j < min 3 i"
    then have "(take (min 3 i) ls @ drop i ls) ! j = take (min 3 i) ls ! j"
      using lk by (simp add: nth_append)
    also have "\<dots> = ls ! j" using j by simp
    finally have e: "(take (min 3 i) ls @ drop i ls) ! j = ls ! j" .
    have "j < i" using j by simp
    then have "\<not> isLevelLine (ls ! j)" using least by blast
    then show "\<not> isLevelLine ((take (min 3 i) ls @ drop i ls) ! j)" unfolding e .
  qed
qed

lemma truncated_no_newline:
  "\<forall>l \<in> set (take k (split t) @ drop i (split t)). NL \<notin> set l"
proof
  fix l assume "l \<in> set (take k (split t) @ drop i (split t))"
  then have "l \<in> set (take k (split t)) \<or> l \<in> set (drop i (split t))" by simp
  then have "l \<in> set (split t)"
  proof
    assume "l \<in> set (take k (split t))"
    then show ?thesis by (rule in_set_takeD)
  next
    assume "l \<in> set (drop i (split t))"
    then show ?thesis by (rule in_set_dropD)
  qed
  then show "NL \<notin> set l" by (rule split_no_newline)
qed

lemma idem_found:
  assumes i: "i < length (split (processedText s))"
    and lvl: "isLevelLine (split (processedText s) ! i)"
    and least: "\<forall>j<i. \<not> isLevelLine (split (processedText s) ! j)"
  shows "preprocessOcrText (preprocessOcrText s) = preprocessOcrText s"
proof -
  define ls where "ls = split (processedText s)"
  define ls' where "ls' = take (min 3 i) ls @ drop i ls"
  define f where "f = join ls'"
  have i': "i < length ls" and lvl': "isLevelLine (ls ! i)"
    and least': "\<forall>j<i. \<not> isLevelLine (ls ! j)"
    using i lvl least unfolding ls_def by blast+
  have 1: "preprocessOcrText s = trim f"
    unfolding f_def ls'_def ls_def using i lvl least by (rule preprocessOcrText_found)
  have "join ls = processedText s" unfolding ls_def by (rule join_split)
  then have "clean (join ls)" using clean_processedText [of s] by simp
  then have cf: "clean f" unfolding f_def ls'_def using i' lvl' by (rule clean_truncate)
  then have "trimmed f" by (simp add: clean_def)
  then have 2: "trim f = f" by (rule trim_id)
  have ne: "ls' \<noteq> []" unfolding ls'_def using i' by simp
  have nn: "\<forall>l \<in> set ls'. NL \<notin> set l"
    unfolding ls'_def ls_def by (rule truncated_no_newline)
  have sp: "split f = ls'" unfolding f_def using ne nn by (rule split_join)
  have kl: "min 3 i < length ls'"
    unfolding ls'_def using i' lvl' least' by (rule truncated_lines(1))
  have lv: "isLevelLine (ls' ! min 3 i)"
    unfolding ls'_def using i' lvl' least' by (rule truncated_lines(2))
  have bf: "\<forall>j<min 3 i. \<not> isLevelLine (ls' ! j)"
    unfolding ls'_def using i' lvl' least' by (rule truncated_lines(3))
  have k3: "min 3 i \<le> 3" by simp
  have "preprocessOcrText f = f"
    using cf sp kl k3 lv bf by (rule preprocessOcrText_clean_fixed)
  then show ?thesis unfolding 1 2 .
qed

lemma first_level_line:
  assumes "\<exists>l \<in> set ls. isLevelLine l"
  shows "\<exists>i<length ls. isLevelLine (ls ! i) \<and> (\<forall>j<i. \<not> isLevelLine (ls ! j))"
  using assms
proof (induction ls)
  case Nil
  then show ?case by simp
next
  case (Cons l ls)
  show ?case
  proof (cases "isLevelLine l")
    case True
    then have "0 < length (l # ls) \<and> isLevelLine ((l # ls) ! 0)
        \<and> (\<forall>j<0. \<not> isLevelLine ((l # ls) ! j))" by simp
    then show ?thesis by (intro exI [of _ 0]) simp
  next
    case False
    then have "\<exists>l \<in> set ls. isLevelLine l" using Cons.prems by simp
    then obtain i where i: "i < length ls" "isLevelLine (ls ! i)"
      "\<forall>j<i. \<not> isLevelLine (ls ! j)" using Cons.IH by blast
    have "\<forall>j<Suc i. \<not> isLevelLine ((l # ls) ! j)"
    proof (intro allI impI)
      fix j assume "j < Suc i"
      then show "\<not> isLevelLine ((l # ls) ! j)" using False i(3) by (cases j) simp_all
    qed
    then have "Suc i < length (l # ls) \<and> isLevelLine ((l # ls) ! Suc i)
        \<and> (\<forall>j<Suc i. \<not> isLevelLine ((l # ls) ! j))" using i by simp
    then show ?thesis by blast
  qed
qed

text \<open>
  Claim C10. Running \<^const>\<open>preprocessOcrText\<close> on its own output returns that output:
  the substitutions find no match in it, it is trimmed, and the level line, if there is
  one, is already among its first four lines.
\<close>

theorem C10_preprocess_idempotent:
  "preprocessOcrText (preprocessOcrText s) = preprocessOcrText s"
proof (cases "\<exists>l \<in> set (split (processedText s)). isLevelLine l")
  case True
  then obtain i where "i < length (split (processedText s))"
    and "isLevelLine (split (processedText s) ! i)"
    and "\<forall>j<i. \<not> isLevelLine (split (processedText s) ! j)"
    using first_level_line by blast
  then show ?thesis by (rule idem_found)
next
  case False
  then have "\<forall>l \<in> set (split (processedText s)). \<not> isLevelLine l" by blast
  then show ?thesis by (rule idem_not_found)
qed

end
